theory Spec2Isabelle
  imports Complex_Main
begin

section \<open>Common conventions\<close>

text \<open>
  Go's \<^verbatim>\<open>int\<close> (on a 64-bit platform) and \<^verbatim>\<open>time.Duration\<close> are 64-bit signed
  integers. They are modelled as HOL integers, and where an arithmetic operation of the
  code can leave the 64-bit range its two's-complement wrap-around is written out with
  \<open>wrap64\<close>. A \<^verbatim>\<open>time.Time\<close> is an integer number of nanoseconds on one clock;
  what \<^verbatim>\<open>time.Now()\<close> returns is an argument of every operation that reads the clock.
\<close>

definition wrap64 :: "int \<Rightarrow> int" where
  "wrap64 x = (x + 2 ^ 63) mod 2 ^ 64 - 2 ^ 63"

definition maxDuration :: int where
  "maxDuration = 2 ^ 63 - 1"

definition minDuration :: int where
  "minDuration = - (2 ^ 63)"

text \<open>\<^verbatim>\<open>t.Sub(u)\<close>: the difference, saturated at the largest and smallest Duration.\<close>

definition time_Sub :: "int \<Rightarrow> int \<Rightarrow> int" where
  "time_Sub t u =
     (let d = t - u in
      if d > maxDuration then maxDuration
      else if d < minDuration then minDuration
      else d)"

text \<open>\<^verbatim>\<open>time.Since(t)\<close> is \<^verbatim>\<open>time.Now().Sub(t)\<close>.\<close>

definition time_Since :: "int \<Rightarrow> int \<Rightarrow> int" where
  "time_Since now t = time_Sub now t"

definition Second :: int where
  "Second = 1000000000"

definition Millisecond :: int where
  "Millisecond = 1000000"


section \<open>Circuit breaker (infrastructure/external/circuit\_breaker.go)\<close>

text \<open>
  \<^verbatim>\<open>CircuitState\<close> is a string type whose only values ever stored in a breaker are
  the three constants; the \<^verbatim>\<open>default\<close> branch of \<^verbatim>\<open>CanExecute\<close> is
  therefore unreachable and the type is modelled as a three-constructor datatype.
\<close>

datatype CircuitState = StateClosed | StateOpen | StateHalf

record CircuitBreaker =
  state :: CircuitState
  failureCount :: int
  successCount :: int
  lastFailureTime :: int
  failureThreshold :: int
  successThreshold :: int
  timeout :: int

datatype cb_error = ErrCircuitOpen

text \<open>
  \<^verbatim>\<open>NewCircuitBreaker\<close>: the fields not named in the composite literal take their
  zero values. The zero \<^verbatim>\<open>time.Time\<close> is written \<open>zeroTime\<close>; the breaker reads
  \<^verbatim>\<open>lastFailureTime\<close> only when it is Open, after a \<^verbatim>\<open>RecordFailure\<close> has set it.
  Each method runs under the breaker's lock and is modelled as one step.
\<close>

definition zeroTime :: int where
  "zeroTime = 0"

definition NewCircuitBreaker :: "int \<Rightarrow> int \<Rightarrow> int \<Rightarrow> CircuitBreaker" where
  "NewCircuitBreaker ft st tmo =
     \<lparr> state = StateClosed, failureCount = 0, successCount = 0,
       lastFailureTime = zeroTime, failureThreshold = ft, successThreshold = st,
       timeout = tmo \<rparr>"

definition RecordSuccess :: "CircuitBreaker \<Rightarrow> CircuitBreaker" where
  "RecordSuccess cb =
     (let cb1 = cb\<lparr>failureCount := 0\<rparr> in
      if state cb1 = StateHalf then
        (let cb2 = cb1\<lparr>successCount := wrap64 (successCount cb1 + 1)\<rparr> in
         if successCount cb2 \<ge> successThreshold cb2
         then cb2\<lparr>state := StateClosed, successCount := 0\<rparr>
         else cb2)
      else cb1)"

text \<open>\<open>RecordFailure now cb\<close>: \<open>now\<close> is the value \<^verbatim>\<open>time.Now()\<close> returns.\<close>

definition RecordFailure :: "int \<Rightarrow> CircuitBreaker \<Rightarrow> CircuitBreaker" where
  "RecordFailure now cb =
     (let cb1 = cb\<lparr>failureCount := wrap64 (failureCount cb + 1),
                     lastFailureTime := now, successCount := 0\<rparr> in
      if failureCount cb1 \<ge> failureThreshold cb1
      then cb1\<lparr>state := StateOpen\<rparr>
      else cb1)"

text \<open>
  \<open>CanExecute now cb\<close> returns the pair \<^verbatim>\<open>(bool, error)\<close> and the breaker as the
  call leaves it.
\<close>

definition CanExecute :: "int \<Rightarrow> CircuitBreaker \<Rightarrow> (bool \<times> cb_error option) \<times> CircuitBreaker" where
  "CanExecute now cb =
     (case state cb of
        StateClosed \<Rightarrow> ((True, None), cb)
      | StateOpen \<Rightarrow>
          if time_Since now (lastFailureTime cb) > timeout cb
          then ((True, None), cb\<lparr>state := StateHalf, failureCount := 0\<rparr>)
          else ((False, Some ErrCircuitOpen), cb)
      | StateHalf \<Rightarrow> ((True, None), cb))"

definition GetState :: "CircuitBreaker \<Rightarrow> CircuitState" where
  "GetState cb = state cb"

text \<open>
  The states a breaker can be in. The thresholds are positive 64-bit integers; a Closed
  breaker has counted fewer failures than its threshold; a HalfOpen breaker has counted
  fewer failures and fewer trial successes than its thresholds; the success counter is zero
  outside HalfOpen. A new breaker is in such a state and the three operations keep it so
  (\<open>breaker_inv_NewCircuitBreaker\<close>, \<open>breaker_inv_preserved\<close>).
\<close>

definition breaker_inv :: "CircuitBreaker \<Rightarrow> bool" where
  "breaker_inv cb =
     (1 \<le> failureThreshold cb \<and> failureThreshold cb < 2 ^ 63 \<and>
      1 \<le> successThreshold cb \<and> successThreshold cb < 2 ^ 63 \<and>
      (case state cb of
         StateClosed \<Rightarrow>
           0 \<le> failureCount cb \<and> failureCount cb < failureThreshold cb \<and> successCount cb = 0
       | StateOpen \<Rightarrow> successCount cb = 0
       | StateHalf \<Rightarrow>
           0 \<le> failureCount cb \<and> failureCount cb < failureThreshold cb \<and>
           0 \<le> successCount cb \<and> successCount cb < successThreshold cb))"



section \<open>Rate limiter (infrastructure/external/rate\_limiter.go)\<close>

text \<open>
  The token counts and the refill rate are \<^verbatim>\<open>float64\<close> values. They are modelled as
  exact rationals: the model computes without rounding. \<open>mu_locked\<close> is the state of the
  \<^verbatim>\<open>sync.Mutex\<close> of the limiter.
\<close>

record RateLimiter =
  tokens :: rat
  maxTokens :: rat
  refillRate :: rat
  lastRefillAt :: int
  mu_locked :: bool

text \<open>\<open>NewRateLimiter requestsPerMinute now\<close>, with \<open>now\<close> the clock reading.\<close>

definition NewRateLimiter :: "int \<Rightarrow> int \<Rightarrow> RateLimiter" where
  "NewRateLimiter requestsPerMinute now =
     (let maxTokens = of_int requestsPerMinute;
          refillRate = maxTokens / 60
      in \<lparr> tokens = maxTokens, maxTokens = maxTokens, refillRate = refillRate,
            lastRefillAt = now, mu_locked = False \<rparr>)"

text \<open>\<^verbatim>\<open>Duration.Seconds()\<close>.\<close>

definition Duration_Seconds :: "int \<Rightarrow> rat" where
  "Duration_Seconds d = of_int d / of_int Second"

text \<open>
  The conversion \<^verbatim>\<open>time.Duration(x)\<close> of a float: the value truncated towards zero
  when that is a 64-bit integer; otherwise Go leaves the result to the implementation
  (\<open>None\<close>).
\<close>

definition Duration_of_float :: "rat \<Rightarrow> int option" where
  "Duration_of_float x =
     (let n = (if 0 \<le> x then \<lfloor>x\<rfloor> else \<lceil>x\<rceil>) in
      if minDuration \<le> n \<and> n \<le> maxDuration then Some n else None)"

text \<open>The block \<^verbatim>\<open>// Refill based on time elapsed\<close>.\<close>

definition refill :: "int \<Rightarrow> RateLimiter \<Rightarrow> RateLimiter" where
  "refill now rl =
     (let elapsed = Duration_Seconds (time_Sub now (lastRefillAt rl));
          tokensToAdd = elapsed * refillRate rl
      in rl\<lparr> tokens := min (tokens rl + tokensToAdd) (maxTokens rl), lastRefillAt := now \<rparr>)"

text \<open>
  The block \<^verbatim>\<open>// Calculate wait time for next token\<close>: the wait the code computes from
  the token deficit. A zero refill rate makes the quotient infinite or undefined, and its
  conversion is then left to the implementation.
\<close>

definition waitDuration_for :: "RateLimiter \<Rightarrow> int option" where
  "waitDuration_for rl =
     (let tokenDeficit = 1 - tokens rl in
      if refillRate rl = 0 then None
      else
        (let waitSeconds = tokenDeficit / refillRate rl
         in Duration_of_float (waitSeconds * of_int Second)))"

datatype rl_error = ErrRateLimit int int

text \<open>
  How a call ends: it returns a duration and an error (or nil); it blocks for ever in
  \<^verbatim>\<open>rl.mu.Lock()\<close>; its result is left to the implementation; or the Go runtime
  stops the program (unlocking a mutex that is not locked).
\<close>

datatype token_result =
    TokenReturned int "rl_error option"
  | TokenBlocked
  | TokenUnspecified
  | TokenFatal

text \<open>What a call does besides: \<^verbatim>\<open>time.Sleep(d)\<close>, and calling itself with a budget.\<close>

datatype rl_effect = Sleep int | Reenter int

text \<open>
  \<open>WaitForToken maxWait now rl\<close>, with \<open>now\<close> the clock reading of the call. The mutex is
  taken first and released by the deferred \<^verbatim>\<open>Unlock\<close> when the call returns; a
  \<^verbatim>\<open>sync.Mutex\<close> is not reentrant, so \<^verbatim>\<open>Lock\<close> on a mutex that is held, and that only
  the caller itself would release, never returns. The recursive call reads the clock
  after the sleep.
\<close>

function WaitForToken ::
  "int \<Rightarrow> int \<Rightarrow> RateLimiter \<Rightarrow> token_result \<times> rl_effect list \<times> RateLimiter" where
  "WaitForToken maxWait now rl =
     (if mu_locked rl then (TokenBlocked, [], rl)
      else
        (let rl1 = refill now (rl\<lparr>mu_locked := True\<rparr>) in
         if tokens rl1 \<ge> 1
         then (TokenReturned 0 None, [], rl1\<lparr>tokens := tokens rl1 - 1, mu_locked := False\<rparr>)
         else
           (case waitDuration_for rl1 of
              None \<Rightarrow> (TokenUnspecified, [], rl1)
            | Some waitDuration \<Rightarrow>
                if waitDuration > maxWait
                then (TokenReturned 0 (Some (ErrRateLimit waitDuration maxWait)), [],
                      rl1\<lparr>mu_locked := False\<rparr>)
                else
                  (let pause = wrap64 (waitDuration + 100 * Millisecond);
                       budget = wrap64 (maxWait - waitDuration)
                   in case WaitForToken budget (now + max 0 pause) rl1 of
                        (TokenReturned additionalWait err, effects, rl2) \<Rightarrow>
                          if mu_locked rl2
                          then (TokenReturned (wrap64 (pause + additionalWait)) err,
                                Sleep pause # Reenter budget # effects, rl2\<lparr>mu_locked := False\<rparr>)
                          else (TokenFatal, Sleep pause # Reenter budget # effects, rl2)
                      | (other, effects, rl2) \<Rightarrow>
                          (other, Sleep pause # Reenter budget # effects, rl2)))))"
  by pat_completeness auto
termination
  by (relation "measure (\<lambda>(maxWait, now, rl). if mu_locked rl then 0 else 1)")
     (auto simp: refill_def Let_def)

text \<open>
  A caller making one call after the other at the clock readings \<open>ts\<close>, each with the same
  budget; it makes no further call once a call has not returned.
\<close>

fun WaitForToken_calls ::
  "int \<Rightarrow> int list \<Rightarrow> RateLimiter \<Rightarrow> token_result list \<times> RateLimiter" where
  "WaitForToken_calls maxWait [] rl = ([], rl)"
| "WaitForToken_calls maxWait (t # ts) rl =
     (case WaitForToken maxWait t rl of
        (TokenReturned d err, effects, rl1) \<Rightarrow>
          (case WaitForToken_calls maxWait ts rl1 of
             (rs, rl2) \<Rightarrow> (TokenReturned d err # rs, rl2))
      | (other, effects, rl1) \<Rightarrow> ([other], rl1))"



section \<open>Labor-cost handler and its retry loop (application/handlers/labor\_cost\_handler.go)\<close>

text \<open>
  \<^verbatim>\<open>RetryConfig\<close>. \<^verbatim>\<open>BackoffMultiplier\<close> is a \<^verbatim>\<open>float64\<close>; its type is left
  open (\<open>'f\<close>), and the one floating-point computation of the loop,
  \<^verbatim>\<open>time.Duration(float64(backoff) * multiplier)\<close>, is the parameter \<open>fmul\<close> of the
  model, so that nothing proved below depends on how floating point rounds.
\<close>

record 'f RetryConfig =
  MaxAttempts :: int
  InitialBackoff :: int
  MaxBackoff :: int
  BackoffMultiplier :: 'f

text \<open>
  \<^verbatim>\<open>NewLaborCostReporter\<close> is the only place that builds a \<^verbatim>\<open>RetryConfig\<close>:
  five attempts, 1 s initial backoff, 30 s maximum backoff; \<open>two\<close> stands for the
  multiplier 2.0.
\<close>

definition NewLaborCostReporter_retryConfig :: "'f \<Rightarrow> 'f RetryConfig" where
  "NewLaborCostReporter_retryConfig two =
     \<lparr> MaxAttempts = 5, InitialBackoff = 1 * Second, MaxBackoff = 30 * Second,
       BackoffMultiplier = two \<rparr>"

text \<open>
  The errors \<^verbatim>\<open>HandleCheckedOut\<close> returns: the three \<^verbatim>\<open>fmt.Errorf\<close> calls.
  \<open>ErrFailedAfter n e\<close> is \<^verbatim>\<open>"failed after %d attempts: %w"\<close> with the attempt count
  and the wrapped error of the last call.
\<close>

datatype 'e handler_error =
    ErrUnmarshal
  | ErrFailedAfter int 'e
  | ErrMaxRetriesExceeded

text \<open>
  The \<^verbatim>\<open>for attempt < MaxAttempts\<close> loop. The world \<open>w\<close> is whatever the wrapped call
  and the clock act on: \<open>op\<close> is \<^verbatim>\<open>h.legacyClient.RecordLaborCost(ctx, ...)\<close>, which
  returns an error or nil and changes the world, and \<open>sleep d\<close> is
  \<^verbatim>\<open>time.Sleep(d)\<close>. The result is the returned error (\<open>None\<close> for nil), the
  durations passed to \<^verbatim>\<open>time.Sleep\<close> in order, and the world the loop leaves.
  \<^verbatim>\<open>attempt++\<close> cannot overflow: it runs only under \<open>attempt < MaxAttempts\<close>.
\<close>

function retry_loop ::
  "(int \<Rightarrow> 'f \<Rightarrow> int) \<Rightarrow> (int \<Rightarrow> 'w \<Rightarrow> 'w) \<Rightarrow> ('w \<Rightarrow> 'e option \<times> 'w) \<Rightarrow> 'f RetryConfig \<Rightarrow>
   int \<Rightarrow> int \<Rightarrow> int list \<Rightarrow> 'w \<Rightarrow> 'e handler_error option \<times> int list \<times> 'w" where
  "retry_loop fmul sleep op cfg attempt backoff slept w =
     (if attempt < MaxAttempts cfg then
        (case op w of
           (None, w1) \<Rightarrow> (None, slept, w1)
         | (Some err, w1) \<Rightarrow>
             (let attempt1 = attempt + 1 in
              if attempt1 \<ge> MaxAttempts cfg
              then (Some (ErrFailedAfter attempt1 err), slept, w1)
              else
                (let w2 = sleep backoff w1;
                     b1 = fmul backoff (BackoffMultiplier cfg);
                     b2 = (if b1 > MaxBackoff cfg then MaxBackoff cfg else b1)
                 in retry_loop fmul sleep op cfg attempt1 b2 (slept @ [backoff]) w2)))
      else (Some ErrMaxRetriesExceeded, slept, w))"
  by pat_completeness auto
termination
  by (relation "measure (\<lambda>(fmul, sleep, op, cfg, attempt, backoff, slept, w).
                  nat (MaxAttempts cfg - attempt))") auto

text \<open>
  \<^verbatim>\<open>HandleCheckedOut\<close>. \<open>unmarshal\<close> is \<^verbatim>\<open>json.Unmarshal\<close> into an
  \<^verbatim>\<open>EmployeeCheckedOutEvent\<close> (\<open>None\<close> when it returns an error); \<open>op ev\<close> is the
  client call with the employee id and the hours of the decoded event.
\<close>

definition HandleCheckedOut ::
  "(int \<Rightarrow> 'f \<Rightarrow> int) \<Rightarrow> (int \<Rightarrow> 'w \<Rightarrow> 'w) \<Rightarrow> ('ev \<Rightarrow> 'w \<Rightarrow> 'e option \<times> 'w) \<Rightarrow> 'f RetryConfig \<Rightarrow>
   ('b \<Rightarrow> 'ev option) \<Rightarrow> 'b \<Rightarrow> 'w \<Rightarrow> 'e handler_error option \<times> int list \<times> 'w" where
  "HandleCheckedOut fmul sleep op cfg unmarshal eventData w =
     (case unmarshal eventData of
        None \<Rightarrow> (Some ErrUnmarshal, [], w)
      | Some event \<Rightarrow>
          retry_loop fmul sleep (op event) cfg 0 (InitialBackoff cfg) [] w)"

text \<open>
  The backoff intervals the loop incurs when it sleeps \<open>n\<close> times, starting from the
  backoff \<open>b\<close>: each following interval is the previous one scaled and capped.
\<close>

fun backoffs :: "(int \<Rightarrow> 'f \<Rightarrow> int) \<Rightarrow> 'f RetryConfig \<Rightarrow> int \<Rightarrow> nat \<Rightarrow> int list" where
  "backoffs fmul cfg b 0 = []"
| "backoffs fmul cfg b (Suc n) =
     b # backoffs fmul cfg
           (if fmul b (BackoffMultiplier cfg) > MaxBackoff cfg then MaxBackoff cfg
            else fmul b (BackoffMultiplier cfg)) n"

text \<open>
  A world for stating what an operation does call by call: the world is the number of calls
  made so far, the \<open>k\<close>-th call (from 0) returns \<open>outcome k\<close>, and sleeping does not
  change the count.
\<close>

definition counted_op :: "(nat \<Rightarrow> 'e option) \<Rightarrow> nat \<Rightarrow> 'e option \<times> nat" where
  "counted_op outcome k = (outcome k, Suc k)"

definition counted_sleep :: "int \<Rightarrow> nat \<Rightarrow> nat" where
  "counted_sleep d k = k"

text \<open>
  \<^verbatim>\<open>time.Sleep(d)\<close> pauses for at least \<open>d\<close>, and returns at once when \<open>d\<close> is
  negative or zero: the least time a sequence of sleeps takes.
\<close>

definition min_time_slept :: "int list \<Rightarrow> int" where
  "min_time_slept ds = sum_list (map (max 0) ds)"


section \<open>Broker consumer (infrastructure/messaging/rabbitmq\_consumer.go)\<close>

text \<open>
  What the \<^verbatim>\<open>select\<close> of the consumption loop receives, in the order it receives it:
  the context is done, the delivery channel is closed, or a delivery with its tag and body.
\<close>

datatype 'b select_event = CtxDone | ChanClosed | Delivery nat 'b

text \<open>
  The acknowledgements sent to the broker: \<^verbatim>\<open>msg.Ack(multiple)\<close> and
  \<^verbatim>\<open>msg.Nack(multiple, requeue)\<close>, with the delivery tag of the message.
\<close>

datatype broker_action = Ack nat bool | Nack nat bool bool

datatype consume_error = ErrRegisterConsumer | ErrContext | ErrChannelClosed

text \<open>
  \<open>Returned e\<close>: \<^verbatim>\<open>Consume\<close> returned the error \<open>e\<close> (it never returns nil).
  \<open>Waiting\<close>: the loop is blocked in its \<^verbatim>\<open>select\<close>, everything received so far
  having been processed.
\<close>

datatype consume_result = Returned consume_error | Waiting

text \<open>
  One entry of the loop's log per processed delivery: tag, body, what the handler returned
  and the acknowledgement sent.
\<close>

type_synonym ('b, 'e) consume_log = "(nat \<times> 'b \<times> 'e option \<times> broker_action) list"

fun consume_loop ::
  "('b \<Rightarrow> 'w \<Rightarrow> 'e option \<times> 'w) \<Rightarrow> 'b select_event list \<Rightarrow> ('b, 'e) consume_log \<Rightarrow> 'w \<Rightarrow>
   consume_result \<times> ('b, 'e) consume_log \<times> 'w" where
  "consume_loop handler [] lg w = (Waiting, lg, w)"
| "consume_loop handler (CtxDone # es) lg w = (Returned ErrContext, lg, w)"
| "consume_loop handler (ChanClosed # es) lg w = (Returned ErrChannelClosed, lg, w)"
| "consume_loop handler (Delivery tag body # es) lg w =
     (case handler body w of
        (Some err, w1) \<Rightarrow>
          consume_loop handler es (lg @ [(tag, body, Some err, Nack tag False True)]) w1
      | (None, w1) \<Rightarrow>
          consume_loop handler es (lg @ [(tag, body, None, Ack tag False)]) w1)"

text \<open>
  \<^verbatim>\<open>Consume\<close>: \<open>registered\<close> says whether \<^verbatim>\<open>c.channel.Consume\<close> succeeded.
\<close>

definition Consume ::
  "bool \<Rightarrow> ('b \<Rightarrow> 'w \<Rightarrow> 'e option \<times> 'w) \<Rightarrow> 'b select_event list \<Rightarrow> 'w \<Rightarrow>
   consume_result \<times> ('b, 'e) consume_log \<times> 'w" where
  "Consume registered handler es w =
     (if \<not> registered then (Returned ErrRegisterConsumer, [], w)
      else consume_loop handler es [] w)"

text \<open>
  The handler \<^verbatim>\<open>startLaborCostWorker\<close> passes to \<^verbatim>\<open>Consume\<close>:
  \<^verbatim>\<open>handler.HandleCheckedOut\<close>, of which the consumer sees the returned error only.
\<close>

definition labor_cost_handler ::
  "(int \<Rightarrow> 'f \<Rightarrow> int) \<Rightarrow> (int \<Rightarrow> 'w \<Rightarrow> 'w) \<Rightarrow> ('ev \<Rightarrow> 'w \<Rightarrow> 'e option \<times> 'w) \<Rightarrow> 'f RetryConfig \<Rightarrow>
   ('b \<Rightarrow> 'ev option) \<Rightarrow> 'b \<Rightarrow> 'w \<Rightarrow> 'e handler_error option \<times> 'w" where
  "labor_cost_handler fmul sleep op cfg unmarshal body w =
     (case HandleCheckedOut fmul sleep op cfg unmarshal body w of
        (r, slept, w1) \<Rightarrow> (r, w1))"

text \<open>The deliveries a run processes: those received before the loop returns.\<close>

fun processed :: "'b select_event list \<Rightarrow> (nat \<times> 'b) list" where
  "processed [] = []"
| "processed (CtxDone # es) = []"
| "processed (ChanClosed # es) = []"
| "processed (Delivery tag body # es) = (tag, body) # processed es"


section \<open>Domain: time records and events (domain/entities, domain/events)\<close>

datatype TimeRecordStatus = StatusCheckedIn | StatusCheckedOut

text \<open>
  \<^verbatim>\<open>TimeRecord\<close>. \<^verbatim>\<open>CheckOutAt\<close> is a pointer, \<open>None\<close> when nil.
  \<^verbatim>\<open>HoursWorked\<close> is a \<^verbatim>\<open>float64\<close>, kept here as an exact rational: no property
  below depends on its value.
\<close>

record TimeRecord =
  ID :: string
  EmployeeID :: string
  CheckInAt :: int
  CheckOutAt :: "int option"
  Status :: TimeRecordStatus
  HoursWorked :: rat

datatype entity_error = ErrEmptyEmployeeID | ErrAlreadyCheckedOut

text \<open>
  \<open>NewTimeRecord uuid now employeeID\<close>: \<open>uuid\<close> is what \<^verbatim>\<open>uuid.New().String()\<close>
  returns and \<open>now\<close> what \<^verbatim>\<open>time.Now()\<close> returns.
\<close>

definition NewTimeRecord :: "string \<Rightarrow> int \<Rightarrow> string \<Rightarrow> entity_error + TimeRecord" where
  "NewTimeRecord uuid now employeeID =
     (if employeeID = [] then Inl ErrEmptyEmployeeID
      else Inr \<lparr> ID = uuid, EmployeeID = employeeID, CheckInAt = now, CheckOutAt = None,
                 Status = StatusCheckedIn, HoursWorked = 0 \<rparr>)"

text \<open>\<^verbatim>\<open>Duration.Hours()\<close>.\<close>

definition Duration_Hours :: "int \<Rightarrow> rat" where
  "Duration_Hours d = of_int d / of_int (3600 * Second)"

text \<open>The method \<^verbatim>\<open>(tr *TimeRecord) CheckOut()\<close>, with the clock reading \<open>now\<close>.\<close>

definition TimeRecord_CheckOut :: "int \<Rightarrow> TimeRecord \<Rightarrow> entity_error + TimeRecord" where
  "TimeRecord_CheckOut now tr =
     (if Status tr = StatusCheckedOut then Inl ErrAlreadyCheckedOut
      else Inr (tr\<lparr> CheckOutAt := Some now, Status := StatusCheckedOut,
                     HoursWorked := Duration_Hours (time_Sub now (CheckInAt tr)) \<rparr>))"

definition IsCheckedIn :: "TimeRecord \<Rightarrow> bool" where
  "IsCheckedIn tr = (Status tr = StatusCheckedIn)"

definition EventTypeEmployeeCheckedIn :: string where
  "EventTypeEmployeeCheckedIn = ''EmployeeCheckedIn''"

definition EventTypeEmployeeCheckedOut :: string where
  "EventTypeEmployeeCheckedOut = ''EmployeeCheckedOut''"

text \<open>
  \<^verbatim>\<open>EventHeader\<close>; its field \<^verbatim>\<open>EventType\<close> is written \<open>HeaderEventType\<close>, the
  name \<open>EventType\<close> being the method of the events.
\<close>

record EventHeader =
  EventID :: string
  HeaderEventType :: string
  Version :: int
  Timestamp :: int

text \<open>
  The two event structs, as the variants of one type. The arguments after the header are,
  in the order of the struct fields: employee id, check-in time, (check-out time, hours
  worked,) record id.
\<close>

datatype DomainEvent =
    EmployeeCheckedInEvent EventHeader string int string
  | EmployeeCheckedOutEvent EventHeader string int int rat string

fun EventType :: "DomainEvent \<Rightarrow> string" where
  "EventType (EmployeeCheckedInEvent h e ci r) = EventTypeEmployeeCheckedIn"
| "EventType (EmployeeCheckedOutEvent h e ci co hw r) = EventTypeEmployeeCheckedOut"


section \<open>Persistence (infrastructure/persistence/postgres\_repository.go)\<close>

text \<open>
  A row of the table \<^verbatim>\<open>outbox_events\<close>, with the column names of the schema in
  \<^verbatim>\<open>initDatabase\<close> (the column \<^verbatim>\<open>id\<close> is written \<open>row_id\<close>). The
  \<^verbatim>\<open>payload\<close> column holds the JSON encoding of an event; the encoding is identified
  with the event it encodes. A row of \<^verbatim>\<open>time_records\<close> is a \<open>TimeRecord\<close>: the
  columns \<^verbatim>\<open>created_at\<close> and \<^verbatim>\<open>updated_at\<close> of that table are never read.
  A table is the list of its rows in insertion order. A column holds the value the code
  passes to it: the coercions of the column types (the precision of a timestamp, the scale
  of \<^verbatim>\<open>DECIMAL(10, 2)\<close>, the length of a \<^verbatim>\<open>VARCHAR\<close>) are not modelled.
\<close>

record outbox_row =
  row_id :: string
  event_type :: string
  aggregate_id :: string
  payload :: DomainEvent
  created_at :: int
  published :: bool
  published_at :: "int option"
  retry_count :: int
  last_error :: "string option"

record database =
  time_records :: "TimeRecord list"
  outbox_events :: "outbox_row list"

datatype repo_error =
    ErrBeginTx | ErrSaveTimeRecord | ErrMarshalEvent | ErrSaveOutboxEvent | ErrCommit
  | ErrTxDone | ErrFindActive | ErrQueryUnpublished | ErrMarkPublished | ErrIncrementRetry

text \<open>
  A connection: the committed database, and the working copy of the open transaction, if
  one is open. \<^verbatim>\<open>BeginTx\<close> opens a transaction on a copy of the committed state,
  a statement executed on the transaction changes the copy only, \<^verbatim>\<open>Commit\<close>
  installs the copy, \<^verbatim>\<open>Rollback\<close> discards it. Each \<open>ok\<close> flag says whether the
  database carried the call out; when it is false the call returns an error and has no
  effect. (Other sessions are not modelled.)
\<close>

record connection =
  committed :: database
  tx_work :: "database option"

definition BeginTx :: "bool \<Rightarrow> connection \<Rightarrow> repo_error option \<times> connection" where
  "BeginTx ok c =
     (if ok then (None, c\<lparr>tx_work := Some (committed c)\<rparr>) else (Some ErrBeginTx, c))"

definition tx_Exec ::
  "bool \<Rightarrow> repo_error \<Rightarrow> (database \<Rightarrow> database option) \<Rightarrow> connection \<Rightarrow>
   repo_error option \<times> connection" where
  "tx_Exec ok err stmt c =
     (case tx_work c of
        None \<Rightarrow> (Some ErrTxDone, c)
      | Some w \<Rightarrow>
          if \<not> ok then (Some err, c)
          else (case stmt w of
                  None \<Rightarrow> (Some err, c)
                | Some w1 \<Rightarrow> (None, c\<lparr>tx_work := Some w1\<rparr>)))"

definition tx_Commit :: "bool \<Rightarrow> connection \<Rightarrow> repo_error option \<times> connection" where
  "tx_Commit ok c =
     (case tx_work c of
        None \<Rightarrow> (Some ErrTxDone, c)
      | Some w \<Rightarrow>
          if ok then (None, \<lparr>committed = w, tx_work = None\<rparr>)
          else (Some ErrCommit, c\<lparr>tx_work := None\<rparr>))"

definition tx_Rollback :: "connection \<Rightarrow> connection" where
  "tx_Rollback c = c\<lparr>tx_work := None\<rparr>"

text \<open>
  The statement \<^verbatim>\<open>INSERT INTO time_records ... ON CONFLICT (id) DO UPDATE SET
  check_out_at, status, hours_worked\<close>: a row with the same id keeps its employee id and
  check-in time and takes the other three columns; otherwise the row is added.
\<close>

definition upsert_time_record :: "TimeRecord \<Rightarrow> database \<Rightarrow> database option" where
  "upsert_time_record r w =
     Some (w\<lparr>time_records :=
       (if ID r \<in> set (map ID (time_records w))
        then map (\<lambda>x. if ID x = ID r
                       then x\<lparr>CheckOutAt := CheckOutAt r, Status := Status r,
                              HoursWorked := HoursWorked r\<rparr>
                       else x) (time_records w)
        else time_records w @ [r])\<rparr>)"

text \<open>
  The statement \<^verbatim>\<open>INSERT INTO outbox_events (id, event_type, aggregate_id, payload,
  created_at, published)\<close>: the other columns take their defaults, and the primary key
  refuses an id that is already there.
\<close>

definition insert_outbox_event ::
  "string \<Rightarrow> string \<Rightarrow> string \<Rightarrow> DomainEvent \<Rightarrow> int \<Rightarrow> bool \<Rightarrow> database \<Rightarrow> database option" where
  "insert_outbox_event i et agg pl now pub w =
     (if i \<in> set (map row_id (outbox_events w)) then None
      else Some (w\<lparr>outbox_events := outbox_events w @
             [\<lparr> row_id = i, event_type = et, aggregate_id = agg, payload = pl,
                created_at = now, published = pub, published_at = None,
                retry_count = 0, last_error = None \<rparr>]\<rparr>))"

text \<open>
  What \<^verbatim>\<open>SaveWithEvent\<close> takes from outside: whether each database call and
  \<^verbatim>\<open>json.Marshal\<close> succeed, the UUID of the outbox row and the clock reading for
  \<^verbatim>\<open>created_at\<close>.
\<close>

record save_env =
  begin_ok :: bool
  record_exec_ok :: bool
  marshal_ok :: bool
  outbox_uuid :: string
  outbox_now :: int
  outbox_exec_ok :: bool
  commit_ok :: bool

text \<open>
  \<^verbatim>\<open>SaveWithEvent\<close>, on a connection. \<^verbatim>\<open>defer tx.Rollback()\<close> runs at every
  return once the transaction is open.
\<close>

definition SaveWithEvent_conn ::
  "save_env \<Rightarrow> TimeRecord \<Rightarrow> DomainEvent \<Rightarrow> connection \<Rightarrow> repo_error option \<times> connection" where
  "SaveWithEvent_conn env record event c0 =
     (case BeginTx (begin_ok env) c0 of
        (Some e, c1) \<Rightarrow> (Some ErrBeginTx, c1)
      | (None, c1) \<Rightarrow>
          (case tx_Exec (record_exec_ok env) ErrSaveTimeRecord (upsert_time_record record) c1 of
             (Some e, c2) \<Rightarrow> (Some ErrSaveTimeRecord, tx_Rollback c2)
           | (None, c2) \<Rightarrow>
               if \<not> marshal_ok env then (Some ErrMarshalEvent, tx_Rollback c2)
               else
                 (case tx_Exec (outbox_exec_ok env) ErrSaveOutboxEvent
                         (insert_outbox_event (outbox_uuid env) (EventType event) (ID record)
                            event (outbox_now env) False) c2 of
                    (Some e, c3) \<Rightarrow> (Some ErrSaveOutboxEvent, tx_Rollback c3)
                  | (None, c3) \<Rightarrow>
                      (case tx_Commit (commit_ok env) c3 of
                         (Some e, c4) \<Rightarrow> (Some ErrCommit, tx_Rollback c4)
                       | (None, c4) \<Rightarrow> (None, tx_Rollback c4)))))"

text \<open>The same on the database: a connection with no transaction open before and after.\<close>

definition SaveWithEvent ::
  "save_env \<Rightarrow> TimeRecord \<Rightarrow> DomainEvent \<Rightarrow> database \<Rightarrow> repo_error option \<times> database" where
  "SaveWithEvent env record event db =
     (case SaveWithEvent_conn env record event \<lparr>committed = db, tx_work = None\<rparr> of
        (r, c) \<Rightarrow> (r, committed c))"

text \<open>
  \<^verbatim>\<open>FindActiveByEmployeeID\<close>: the checked-in row of the employee with the latest
  check-in time (SQL leaves the choice among equal times open; the model takes the first
  inserted). \<open>Inr None\<close> is the result \<^verbatim>\<open>(nil, nil)\<close> for no row.
\<close>

definition FindActiveByEmployeeID ::
  "bool \<Rightarrow> database \<Rightarrow> string \<Rightarrow> repo_error + TimeRecord option" where
  "FindActiveByEmployeeID ok db employeeID =
     (if \<not> ok then Inl ErrFindActive
      else
        (case sort_key (\<lambda>r. - CheckInAt r)
                (filter (\<lambda>r. EmployeeID r = employeeID \<and> Status r = StatusCheckedIn)
                   (time_records db)) of
           [] \<Rightarrow> Inr None
         | r # rs \<Rightarrow> Inr (Some r)))"

text \<open>\<^verbatim>\<open>repositories.OutboxEvent\<close>: the seven columns the query scans.\<close>

record OutboxEvent =
  EvID :: string
  EvType :: string
  AggregateID :: string
  Payload :: DomainEvent
  CreatedAt :: int
  Published :: bool
  RetryCount :: int

definition scan_row :: "outbox_row \<Rightarrow> OutboxEvent" where
  "scan_row r =
     \<lparr> EvID = row_id r, EvType = event_type r, AggregateID = aggregate_id r,
       Payload = payload r, CreatedAt = created_at r, Published = published r,
       RetryCount = retry_count r \<rparr>"

text \<open>
  \<^verbatim>\<open>GetUnpublishedEvents\<close>. The event type is not an argument: the query binds
  \<^verbatim>\<open>events.EventTypeEmployeeCheckedOut\<close>. \<open>locked\<close> is the set of ids of the rows
  other sessions hold locked, which \<^verbatim>\<open>FOR UPDATE SKIP LOCKED\<close> passes over.
  PostgreSQL refuses a negative \<^verbatim>\<open>LIMIT\<close>. Rows of equal \<^verbatim>\<open>created_at\<close> come in
  insertion order here; SQL leaves their order open.
\<close>

definition GetUnpublishedEvents ::
  "bool \<Rightarrow> string set \<Rightarrow> database \<Rightarrow> int \<Rightarrow> repo_error + OutboxEvent list" where
  "GetUnpublishedEvents ok locked db limit =
     (if \<not> ok \<or> limit < 0 then Inl ErrQueryUnpublished
      else Inr (map scan_row
             (take (nat limit)
                (sort_key created_at
                   (filter (\<lambda>r. \<not> published r \<and> event_type r = EventTypeEmployeeCheckedOut \<and>
                                row_id r \<notin> locked)
                      (outbox_events db))))))"

text \<open>\<^verbatim>\<open>MarkAsPublished\<close>, with the clock reading \<open>now\<close>.\<close>

definition MarkAsPublished ::
  "bool \<Rightarrow> int \<Rightarrow> database \<Rightarrow> string \<Rightarrow> repo_error option \<times> database" where
  "MarkAsPublished ok now db eventID =
     (if \<not> ok then (Some ErrMarkPublished, db)
      else (None, db\<lparr>outbox_events :=
              map (\<lambda>r. if row_id r = eventID
                        then r\<lparr>published := True, published_at := Some now\<rparr> else r)
                  (outbox_events db)\<rparr>))"

text \<open>
  \<^verbatim>\<open>IncrementRetryCount\<close>. The column \<^verbatim>\<open>retry_count\<close> is a 32-bit \<^verbatim>\<open>INT\<close>:
  PostgreSQL refuses the update, and changes nothing, when the sum is out of range.
\<close>

definition IncrementRetryCount ::
  "bool \<Rightarrow> database \<Rightarrow> string \<Rightarrow> string \<Rightarrow> repo_error option \<times> database" where
  "IncrementRetryCount ok db eventID errorMsg =
     (if \<not> ok \<or> (\<exists>r \<in> set (outbox_events db). row_id r = eventID \<and> retry_count r + 1 > 2147483647)
      then (Some ErrIncrementRetry, db)
      else (None, db\<lparr>outbox_events :=
              map (\<lambda>r. if row_id r = eventID
                        then r\<lparr>retry_count := retry_count r + 1, last_error := Some errorMsg\<rparr>
                        else r)
                  (outbox_events db)\<rparr>))"


section \<open>Check-in and check-out services (application/services)\<close>

datatype service_error =
    ErrEmployeeAlreadyCheckedInConst
  | ErrDuplicateCheckInConst
  | ErrNoActiveCheckInFoundConst
  | ErrEntity entity_error
  | ErrFailedToSaveCheckIn repo_error
  | ErrFailedToSaveCheckOut repo_error
  | PanicNilCheckOutAt

text \<open>
  What a service call takes from outside: whether the lookup succeeds, the clock readings
  (\<open>since_now\<close> for \<^verbatim>\<open>time.Since\<close>, \<open>entity_now\<close> inside the entity,
  \<open>event_now\<close> for the event timestamp), the UUIDs of the new record and of the event, and
  the environment of \<^verbatim>\<open>SaveWithEvent\<close>.
\<close>

record service_env =
  find_ok :: bool
  since_now :: int
  entity_uuid :: string
  entity_now :: int
  event_uuid :: string
  event_now :: int
  save :: save_env

text \<open>
  \<^verbatim>\<open>CheckInService.CheckIn\<close>. A failed lookup does not stop it: only a lookup that
  succeeds and finds a record does.
\<close>

definition CheckIn ::
  "service_env \<Rightarrow> database \<Rightarrow> string \<Rightarrow> (service_error + TimeRecord) \<times> database" where
  "CheckIn env db employeeID =
     (case FindActiveByEmployeeID (find_ok env) db employeeID of
        Inr (Some existing) \<Rightarrow> (Inl ErrEmployeeAlreadyCheckedInConst, db)
      | _ \<Rightarrow>
          (case NewTimeRecord (entity_uuid env) (entity_now env) employeeID of
             Inl e \<Rightarrow> (Inl (ErrEntity e), db)
           | Inr record \<Rightarrow>
               (let event = EmployeeCheckedInEvent
                      \<lparr> EventID = event_uuid env, HeaderEventType = EventTypeEmployeeCheckedIn,
                        Version = 1, Timestamp = event_now env \<rparr>
                      (EmployeeID record) (CheckInAt record) (ID record)
                in case SaveWithEvent (save env) record event db of
                     (Some e, db1) \<Rightarrow> (Inl (ErrFailedToSaveCheckIn e), db1)
                   | (None, db1) \<Rightarrow> (Inr record, db1))))"

text \<open>
  \<^verbatim>\<open>CheckOutService.CheckOut\<close>. \<open>dupWindow\<close> is
  \<^verbatim>\<open>config.Cfg.CheckOut.DuplicateWindowSec\<close>; the product
  \<^verbatim>\<open>time.Duration(dupWindow) * time.Second\<close> wraps around as 64-bit
  multiplication does. The record the method works on is the copy the lookup returned.
\<close>

definition CheckOut ::
  "service_env \<Rightarrow> int \<Rightarrow> database \<Rightarrow> string \<Rightarrow> (service_error + TimeRecord) \<times> database" where
  "CheckOut env dupWindow db employeeID =
     (case FindActiveByEmployeeID (find_ok env) db employeeID of
        Inl e \<Rightarrow> (Inl ErrNoActiveCheckInFoundConst, db)
      | Inr None \<Rightarrow> (Inl ErrNoActiveCheckInFoundConst, db)
      | Inr (Some record) \<Rightarrow>
          if time_Since (since_now env) (CheckInAt record) < wrap64 (dupWindow * Second)
          then (Inl ErrDuplicateCheckInConst, db)
          else
            (case TimeRecord_CheckOut (entity_now env) record of
               Inl e \<Rightarrow> (Inl (ErrEntity e), db)
             | Inr record1 \<Rightarrow>
                 (case CheckOutAt record1 of
                    None \<Rightarrow> (Inl PanicNilCheckOutAt, db)
                  | Some checkOutAt \<Rightarrow>
                      (let event = EmployeeCheckedOutEvent
                             \<lparr> EventID = event_uuid env,
                               HeaderEventType = EventTypeEmployeeCheckedOut,
                               Version = 1, Timestamp = event_now env \<rparr>
                             (EmployeeID record1) (CheckInAt record1) checkOutAt
                             (HoursWorked record1) (ID record1)
                       in case SaveWithEvent (save env) record1 event db of
                            (Some e, db1) \<Rightarrow> (Inl (ErrFailedToSaveCheckOut e), db1)
                          | (None, db1) \<Rightarrow> (Inr record1, db1)))))"



section \<open>Outbox relay (startOutboxPublisher in cmd/api/main.go)\<close>

text \<open>
  What one poll cycle takes from outside: whether the query succeeds, the rows other
  sessions hold locked, and for the event with a given id what \<^verbatim>\<open>PublishRaw\<close>
  returns (\<open>None\<close> for nil, else the error text), whether the update that follows
  succeeds, and the clock reading of \<^verbatim>\<open>MarkAsPublished\<close>.
\<close>

record poll_env =
  query_ok :: bool
  locked_rows :: "string set"
  publish_result :: "string \<Rightarrow> string option"
  update_ok :: "string \<Rightarrow> bool"
  mark_now :: "string \<Rightarrow> int"

text \<open>
  The \<^verbatim>\<open>for _, event := range events\<close> loop. The result is the database and the
  events handed to \<^verbatim>\<open>PublishRaw\<close>, in order. The errors of the two updates are logged
  or dropped by the code, not returned.
\<close>

fun publish_events ::
  "poll_env \<Rightarrow> OutboxEvent list \<Rightarrow> OutboxEvent list \<Rightarrow> database \<Rightarrow> OutboxEvent list \<times> database" where
  "publish_events env [] sent db = (sent, db)"
| "publish_events env (event # events) sent db =
     (case publish_result env (EvID event) of
        Some msg \<Rightarrow>
          publish_events env events (sent @ [event])
            (snd (IncrementRetryCount (update_ok env (EvID event)) db (EvID event) msg))
      | None \<Rightarrow>
          publish_events env events (sent @ [event])
            (snd (MarkAsPublished (update_ok env (EvID event)) (mark_now env (EvID event))
                    db (EvID event))))"

text \<open>One tick of the relay, with \<open>maxEvents\<close> the configured fetch limit.\<close>

definition poll_cycle ::
  "poll_env \<Rightarrow> int \<Rightarrow> database \<Rightarrow> OutboxEvent list \<times> database" where
  "poll_cycle env maxEvents db =
     (case GetUnpublishedEvents (query_ok env) (locked_rows env) db maxEvents of
        Inl e \<Rightarrow> ([], db)
      | Inr events \<Rightarrow>
          if events = [] then ([], db)
          else publish_events env events [] db)"

text \<open>
  A sequence of ticks, each with its environment and fetch limit: the events handed to
  the publisher over all of them, and the database at the end.
\<close>

fun poll_cycles ::
  "(poll_env \<times> int) list \<Rightarrow> OutboxEvent list \<Rightarrow> database \<Rightarrow> OutboxEvent list \<times> database" where
  "poll_cycles [] sent db = (sent, db)"
| "poll_cycles ((env, maxEvents) # ticks) sent db =
     (case poll_cycle env maxEvents db of
        (sent1, db1) \<Rightarrow> poll_cycles ticks (sent @ sent1) db1)"

text \<open>
  The invariants of the outbox table, as the specification words them: between an earlier
  and a later state of the table no row is deleted (the earlier rows are still there, in
  place), the payload is not modified (nor the id, the type, the aggregate id and the
  creation time), and \<^verbatim>\<open>published\<close> does not go back from true to false.
\<close>

definition row_evolves :: "outbox_row \<Rightarrow> outbox_row \<Rightarrow> bool" where
  "row_evolves r r1 =
     (row_id r1 = row_id r \<and> event_type r1 = event_type r \<and>
      aggregate_id r1 = aggregate_id r \<and> payload r1 = payload r \<and>
      created_at r1 = created_at r \<and> (published r \<longrightarrow> published r1))"

definition outbox_evolves :: "database \<Rightarrow> database \<Rightarrow> bool" where
  "outbox_evolves db db1 =
     (length (outbox_events db) \<le> length (outbox_events db1) \<and>
      list_all2 row_evolves (outbox_events db)
        (take (length (outbox_events db)) (outbox_events db1)))"

text \<open>The primary key of \<^verbatim>\<open>outbox_events\<close>: no two rows share an id.\<close>

definition outbox_pk :: "database \<Rightarrow> bool" where
  "outbox_pk db = distinct (map row_id (outbox_events db))"


section \<open>Scenario data\<close>

text \<open>
  A small database for the concrete instances below: employee E1 checked in at 100 s and
  is still checked in; the outbox holds that check-in event (created at 100 s), two
  unpublished check-out events of other employees (created at 300 s and 200 s) and one
  published check-out event (created at 50 s).
\<close>

definition ex_record :: TimeRecord where
  "ex_record = \<lparr> ID = ''r1'', EmployeeID = ''E1'', CheckInAt = 100 * Second, CheckOutAt = None,
                  Status = StatusCheckedIn, HoursWorked = 0 \<rparr>"

definition ex_checkin_event :: DomainEvent where
  "ex_checkin_event = EmployeeCheckedInEvent
     \<lparr> EventID = ''e1'', HeaderEventType = EventTypeEmployeeCheckedIn, Version = 1,
       Timestamp = 100 * Second \<rparr> ''E1'' (100 * Second) ''r1''"

definition ex_checkout_event :: "string \<Rightarrow> string \<Rightarrow> string \<Rightarrow> int \<Rightarrow> DomainEvent" where
  "ex_checkout_event eid emp rid t = EmployeeCheckedOutEvent
     \<lparr> EventID = eid, HeaderEventType = EventTypeEmployeeCheckedOut, Version = 1,
       Timestamp = t \<rparr> emp (t - 3600 * Second) t 1 rid"

definition ex_row :: "string \<Rightarrow> DomainEvent \<Rightarrow> string \<Rightarrow> int \<Rightarrow> bool \<Rightarrow> outbox_row" where
  "ex_row i ev agg t pub =
     \<lparr> row_id = i, event_type = EventType ev, aggregate_id = agg, payload = ev,
       created_at = t, published = pub, published_at = (if pub then Some t else None),
       retry_count = 0, last_error = None \<rparr>"

definition ex_db :: database where
  "ex_db =
     \<lparr> time_records = [ex_record],
       outbox_events =
         [ex_row ''o1'' ex_checkin_event ''r1'' (100 * Second) False,
          ex_row ''o2'' (ex_checkout_event ''e2'' ''E2'' ''r2'' (300 * Second)) ''r2'' (300 * Second) False,
          ex_row ''o3'' (ex_checkout_event ''e3'' ''E3'' ''r3'' (200 * Second)) ''r3'' (200 * Second) False,
          ex_row ''o4'' (ex_checkout_event ''e4'' ''E4'' ''r4'' (50 * Second)) ''r4'' (50 * Second) True] \<rparr>"

definition ex_save_env :: "string \<Rightarrow> int \<Rightarrow> save_env" where
  "ex_save_env uuid now =
     \<lparr> begin_ok = True, record_exec_ok = True, marshal_ok = True, outbox_uuid = uuid,
       outbox_now = now, outbox_exec_ok = True, commit_ok = True \<rparr>"

definition ex_service_env :: "int \<Rightarrow> service_env" where
  "ex_service_env now =
     \<lparr> find_ok = True, since_now = now, entity_uuid = ''r9'', entity_now = now,
       event_uuid = ''e9'', event_now = now, save = ex_save_env ''o9'' now \<rparr>"

text \<open>A poll in which the query succeeds, nothing is locked and every publish succeeds.\<close>

definition ex_poll_env :: poll_env where
  "ex_poll_env =
     \<lparr> query_ok = True, locked_rows = {}, publish_result = (\<lambda>i. None),
       update_ok = (\<lambda>i. True), mark_now = (\<lambda>i. 400 * Second) \<rparr>"


section \<open>Circuit breaker: properties\<close>

lemma wrap64_id: "- (2 ^ 63) \<le> x \<Longrightarrow> x < 2 ^ 63 \<Longrightarrow> wrap64 x = x"
  unfolding wrap64_def by (simp add: mod_pos_pos_trivial)

lemma RecordFailure_Open_stays:
  "state cb = StateOpen \<Longrightarrow> state (RecordFailure now cb) = StateOpen"
  by (simp add: RecordFailure_def Let_def)

lemma RecordFailure_thresholds:
  "failureThreshold (RecordFailure now cb) = failureThreshold cb \<and>
   successThreshold (RecordFailure now cb) = successThreshold cb \<and>
   timeout (RecordFailure now cb) = timeout cb \<and>
   lastFailureTime (RecordFailure now cb) = now \<and>
   successCount (RecordFailure now cb) = 0"
  by (simp add: RecordFailure_def Let_def)

lemma fold_RecordFailure_Open_stays:
  "state cb = StateOpen \<Longrightarrow> state (fold RecordFailure ts cb) = StateOpen"
  by (induction ts arbitrary: cb) (simp_all add: RecordFailure_Open_stays)

lemma fold_RecordFailure_config:
  "failureThreshold (fold RecordFailure ts cb) = failureThreshold cb \<and>
   successThreshold (fold RecordFailure ts cb) = successThreshold cb \<and>
   timeout (fold RecordFailure ts cb) = timeout cb"
  by (induction ts arbitrary: cb) (simp_all add: RecordFailure_thresholds)

lemma fold_RecordFailure_last:
  "ts \<noteq> [] \<Longrightarrow> lastFailureTime (fold RecordFailure ts cb) = last ts \<and>
     successCount (fold RecordFailure ts cb) = 0"
proof (induction ts arbitrary: cb)
  case Nil
  then show ?case by simp
next
  case (Cons t ts)
  show ?case
  proof (cases "ts = []")
    case True
    then show ?thesis by (simp add: RecordFailure_thresholds)
  next
    case False
    with Cons.IH [of "RecordFailure t cb"] show ?thesis by simp
  qed
qed

lemma RecordFailure_step:
  assumes "0 \<le> failureCount cb" and "failureCount cb < failureThreshold cb"
    and "failureThreshold cb < 2 ^ 63"
  shows "failureCount (RecordFailure now cb) = failureCount cb + 1"
    and "failureCount cb + 1 \<ge> failureThreshold cb \<Longrightarrow> state (RecordFailure now cb) = StateOpen"
    and "failureCount cb + 1 < failureThreshold cb \<Longrightarrow> state (RecordFailure now cb) = state cb"
proof -
  have w: "wrap64 (failureCount cb + 1) = failureCount cb + 1"
    using assms by (intro wrap64_id) auto
  show "failureCount (RecordFailure now cb) = failureCount cb + 1"
    by (simp add: RecordFailure_def Let_def w)
  show "failureCount cb + 1 \<ge> failureThreshold cb \<Longrightarrow> state (RecordFailure now cb) = StateOpen"
    by (simp add: RecordFailure_def Let_def w)
  show "failureCount cb + 1 < failureThreshold cb \<Longrightarrow> state (RecordFailure now cb) = state cb"
    by (simp add: RecordFailure_def Let_def w)
qed

lemma fold_RecordFailure_opens:
  assumes "0 \<le> failureCount cb" and "failureCount cb < failureThreshold cb"
    and "failureThreshold cb < 2 ^ 63"
    and "failureThreshold cb - failureCount cb \<le> int (length ts)"
  shows "state (fold RecordFailure ts cb) = StateOpen"
  using assms
proof (induction ts arbitrary: cb)
  case Nil
  then show ?case by simp
next
  case (Cons t ts)
  note st = RecordFailure_step [OF Cons.prems(1-3), of t]
  show ?case
  proof (cases "failureCount cb + 1 \<ge> failureThreshold cb")
    case True
    then have "state (RecordFailure t cb) = StateOpen" by (rule st(2))
    then show ?thesis by (simp add: fold_RecordFailure_Open_stays)
  next
    case False
    have "state (fold RecordFailure ts (RecordFailure t cb)) = StateOpen"
    proof (rule Cons.IH)
      show "0 \<le> failureCount (RecordFailure t cb)" using st(1) Cons.prems(1) by simp
      show "failureCount (RecordFailure t cb) < failureThreshold (RecordFailure t cb)"
        using st(1) False by (simp add: RecordFailure_thresholds)
      show "failureThreshold (RecordFailure t cb) < 2 ^ 63"
        using Cons.prems(3) by (simp add: RecordFailure_thresholds)
      show "failureThreshold (RecordFailure t cb) - failureCount (RecordFailure t cb) \<le> int (length ts)"
        using st(1) Cons.prems(4) by (simp add: RecordFailure_thresholds)
    qed
    then show ?thesis by simp
  qed
qed


lemma RecordSuccess_config:
  "failureThreshold (RecordSuccess cb) = failureThreshold cb \<and>
   successThreshold (RecordSuccess cb) = successThreshold cb \<and>
   timeout (RecordSuccess cb) = timeout cb"
  by (simp add: RecordSuccess_def Let_def)

lemma RecordSuccess_Half_step:
  assumes "state cb = StateHalf" and "0 \<le> successCount cb"
    and "successCount cb < successThreshold cb" and "successThreshold cb < 2 ^ 63"
  shows "successCount cb + 1 < successThreshold cb \<Longrightarrow>
           state (RecordSuccess cb) = StateHalf \<and> successCount (RecordSuccess cb) = successCount cb + 1"
    and "successCount cb + 1 \<ge> successThreshold cb \<Longrightarrow>
           state (RecordSuccess cb) = StateClosed \<and> successCount (RecordSuccess cb) = 0 \<and>
           failureCount (RecordSuccess cb) = 0"
proof -
  have w: "wrap64 (successCount cb + 1) = successCount cb + 1"
    using assms by (intro wrap64_id) auto
  show "successCount cb + 1 < successThreshold cb \<Longrightarrow>
           state (RecordSuccess cb) = StateHalf \<and> successCount (RecordSuccess cb) = successCount cb + 1"
    using assms(1) by (simp add: RecordSuccess_def Let_def w)
  show "successCount cb + 1 \<ge> successThreshold cb \<Longrightarrow>
           state (RecordSuccess cb) = StateClosed \<and> successCount (RecordSuccess cb) = 0 \<and>
           failureCount (RecordSuccess cb) = 0"
    using assms(1) by (simp add: RecordSuccess_def Let_def w)
qed

lemma funpow_RecordSuccess_closes:
  assumes "state cb = StateHalf" and "0 \<le> successCount cb"
    and "successCount cb < successThreshold cb" and "successThreshold cb < 2 ^ 63"
    and "int n = successThreshold cb - successCount cb"
  shows "state ((RecordSuccess ^^ n) cb) = StateClosed \<and>
         successCount ((RecordSuccess ^^ n) cb) = 0 \<and>
         failureCount ((RecordSuccess ^^ n) cb) = 0"
  using assms
proof (induction n arbitrary: cb)
  case 0
  then show ?case by simp
next
  case (Suc n)
  note st = RecordSuccess_Half_step [OF Suc.prems(1-4)]
  have unf: "(RecordSuccess ^^ Suc n) cb = (RecordSuccess ^^ n) (RecordSuccess cb)"
    by (simp add: funpow_swap1)
  show ?case
  proof (cases "successCount cb + 1 \<ge> successThreshold cb")
    case True
    with Suc.prems(5) have "n = 0" by simp
    with st(2) [OF True] show ?thesis by simp
  next
    case False
    then have lt: "successCount cb + 1 < successThreshold cb" by simp
    have "state ((RecordSuccess ^^ n) (RecordSuccess cb)) = StateClosed \<and>
          successCount ((RecordSuccess ^^ n) (RecordSuccess cb)) = 0 \<and>
          failureCount ((RecordSuccess ^^ n) (RecordSuccess cb)) = 0"
    proof (rule Suc.IH)
      show "state (RecordSuccess cb) = StateHalf" using st(1) [OF lt] by simp
      show "0 \<le> successCount (RecordSuccess cb)" using st(1) [OF lt] Suc.prems(2) by simp
      show "successCount (RecordSuccess cb) < successThreshold (RecordSuccess cb)"
        using st(1) [OF lt] lt by (simp add: RecordSuccess_config)
      show "successThreshold (RecordSuccess cb) < 2 ^ 63"
        using Suc.prems(4) by (simp add: RecordSuccess_config)
      show "int n = successThreshold (RecordSuccess cb) - successCount (RecordSuccess cb)"
        using st(1) [OF lt] Suc.prems(5) by (simp add: RecordSuccess_config)
    qed
    then show ?thesis by (simp only: unf)
  qed
qed

lemma breaker_inv_NewCircuitBreaker:
  "1 \<le> ft \<Longrightarrow> ft < 2 ^ 63 \<Longrightarrow> 1 \<le> st \<Longrightarrow> st < 2 ^ 63 \<Longrightarrow>
     breaker_inv (NewCircuitBreaker ft st tmo)"
  by (simp add: breaker_inv_def NewCircuitBreaker_def)

lemma breaker_inv_preserved:
  assumes "breaker_inv cb"
  shows "breaker_inv (RecordSuccess cb)"
    and "breaker_inv (RecordFailure now cb)"
    and "breaker_inv (snd (CanExecute now cb))"
proof -
  have f: "wrap64 (failureCount cb + 1) = failureCount cb + 1"
    if "0 \<le> failureCount cb" "failureCount cb < failureThreshold cb"
    using that assms by (intro wrap64_id) (auto simp: breaker_inv_def)
  have s: "wrap64 (successCount cb + 1) = successCount cb + 1"
    if "0 \<le> successCount cb" "successCount cb < successThreshold cb"
    using that assms by (intro wrap64_id) (auto simp: breaker_inv_def)
  show "breaker_inv (RecordSuccess cb)"
    using assms s by (cases "state cb") (auto simp: breaker_inv_def RecordSuccess_def Let_def)
  show "breaker_inv (RecordFailure now cb)"
    using assms f by (cases "state cb") (auto simp: breaker_inv_def RecordFailure_def Let_def)
  show "breaker_inv (snd (CanExecute now cb))"
    using assms by (cases "state cb") (auto simp: breaker_inv_def CanExecute_def)
qed

lemma RecordFailure_HalfOpen:
  assumes "state cb = StateHalf" and "0 \<le> failureCount cb" and "failureCount cb + 1 < 2 ^ 63"
  shows "state (RecordFailure now cb) =
           (if failureThreshold cb \<le> failureCount cb + 1 then StateOpen else StateHalf)"
proof -
  have w: "wrap64 (failureCount cb + 1) = failureCount cb + 1"
    using assms by (intro wrap64_id) auto
  show ?thesis using assms(1) by (simp add: RecordFailure_def Let_def w)
qed

text \<open>
  Claim C1. A breaker that is HalfOpen should go back to Open on a single
  \<^verbatim>\<open>RecordFailure\<close>, whatever the failure threshold. The code has no HalfOpen case:
  \<^verbatim>\<open>RecordFailure\<close> opens the breaker only when the failure counter reaches the
  threshold, and \<^verbatim>\<open>CanExecute\<close> has reset that counter to zero on entering HalfOpen
  (\<open>RecordFailure_HalfOpen\<close>). The run below is the default configuration of
  \<^verbatim>\<open>startLaborCostWorker\<close> (threshold 5, success threshold 1, reset timeout 60 s):
  five failures open the breaker, the probe after 61 s makes it HalfOpen, and the failure
  of that probe leaves it HalfOpen with a failure count of 1.
\<close>

theorem C1_HalfOpen_failure_stays_HalfOpen:
  "state (RecordFailure (67 * Second)
            (snd (CanExecute (66 * Second)
               (fold RecordFailure [1 * Second, 2 * Second, 3 * Second, 4 * Second, 5 * Second]
                  (NewCircuitBreaker 5 1 (60 * Second)))))) = StateHalf \<and>
   state (snd (CanExecute (66 * Second)
               (fold RecordFailure [1 * Second, 2 * Second, 3 * Second, 4 * Second, 5 * Second]
                  (NewCircuitBreaker 5 1 (60 * Second))))) = StateHalf"
  by (simp add: RecordFailure_def CanExecute_def NewCircuitBreaker_def Let_def wrap64_def
      Second_def time_Since_def time_Sub_def maxDuration_def minDuration_def zeroTime_def)

text \<open>
  Claim C4. From a Closed breaker (in a state a breaker can be in, \<open>breaker_inv\<close>:
  thresholds positive, failure counter below its threshold), \<open>failureThreshold\<close>
  consecutive \<^verbatim>\<open>RecordFailure\<close> calls at the times \<open>ts\<close> leave the breaker Open;
  \<^verbatim>\<open>CanExecute\<close> then returns false, with the breaker unchanged, while the time since
  the last failure does not exceed the reset timeout; once it exceeds the timeout
  \<^verbatim>\<open>CanExecute\<close> returns true and makes the breaker HalfOpen; and \<open>successThreshold\<close>
  consecutive \<^verbatim>\<open>RecordSuccess\<close> calls from there leave it Closed with both counters
  zero.
\<close>

theorem C4_breaker_cycle:
  assumes inv: "breaker_inv cb"
    and closed: "state cb = StateClosed"
    and len: "int (length ts) = failureThreshold cb"
  shows "state (fold RecordFailure ts cb) = StateOpen \<and>
         (\<forall>now. time_Since now (last ts) \<le> timeout cb \<longrightarrow>
            CanExecute now (fold RecordFailure ts cb) =
              ((False, Some ErrCircuitOpen), fold RecordFailure ts cb)) \<and>
         (\<forall>now. time_Since now (last ts) > timeout cb \<longrightarrow>
            fst (CanExecute now (fold RecordFailure ts cb)) = (True, None) \<and>
            state (snd (CanExecute now (fold RecordFailure ts cb))) = StateHalf \<and>
            state ((RecordSuccess ^^ nat (successThreshold cb))
                     (snd (CanExecute now (fold RecordFailure ts cb)))) = StateClosed \<and>
            failureCount ((RecordSuccess ^^ nat (successThreshold cb))
                     (snd (CanExecute now (fold RecordFailure ts cb)))) = 0 \<and>
            successCount ((RecordSuccess ^^ nat (successThreshold cb))
                     (snd (CanExecute now (fold RecordFailure ts cb)))) = 0)"
proof -
  have fc: "0 \<le> failureCount cb" "failureCount cb < failureThreshold cb"
    and ft: "failureThreshold cb < 2 ^ 63"
    and st: "1 \<le> successThreshold cb" "successThreshold cb < 2 ^ 63"
    using inv closed by (simp_all add: breaker_inv_def)
  let ?o = "fold RecordFailure ts cb"
  have ne: "ts \<noteq> []" using len fc by auto
  have op: "state ?o = StateOpen"
    using fc ft len by (intro fold_RecordFailure_opens) auto
  have lf: "lastFailureTime ?o = last ts" and sc: "successCount ?o = 0"
    using fold_RecordFailure_last [OF ne, of cb] by simp_all
  have cfg: "timeout ?o = timeout cb" "successThreshold ?o = successThreshold cb"
    using fold_RecordFailure_config [of ts cb] by simp_all
  have rej: "CanExecute now ?o = ((False, Some ErrCircuitOpen), ?o)"
    if "time_Since now (last ts) \<le> timeout cb" for now
    using that by (simp add: CanExecute_def op lf cfg)
  let ?h = "?o\<lparr>state := StateHalf, failureCount := 0\<rparr>"
  have ce: "CanExecute now ?o = ((True, None), ?h)"
    if "time_Since now (last ts) > timeout cb" for now
    using that by (simp add: CanExecute_def op lf cfg)
  have cl: "state ((RecordSuccess ^^ nat (successThreshold cb)) ?h) = StateClosed \<and>
        successCount ((RecordSuccess ^^ nat (successThreshold cb)) ?h) = 0 \<and>
        failureCount ((RecordSuccess ^^ nat (successThreshold cb)) ?h) = 0"
    using st sc cfg by (intro funpow_RecordSuccess_closes) auto
  show ?thesis
    using op rej ce cl by simp
qed

theorem C4_breaker_cycle_witness:
  "state (NewCircuitBreaker 2 1 (60 * Second)) = StateClosed \<and>
   int (length [1 * Second, 2 * Second]) = failureThreshold (NewCircuitBreaker 2 1 (60 * Second)) \<and>
   state (fold RecordFailure [1 * Second, 2 * Second] (NewCircuitBreaker 2 1 (60 * Second))) = StateOpen \<and>
   time_Since (62 * Second) (last [1 * Second, 2 * Second]) \<le> 60 * Second \<and>
   fst (fst (CanExecute (62 * Second)
     (fold RecordFailure [1 * Second, 2 * Second] (NewCircuitBreaker 2 1 (60 * Second))))) = False \<and>
   time_Since (63 * Second) (last [1 * Second, 2 * Second]) > 60 * Second \<and>
   fst (fst (CanExecute (63 * Second)
     (fold RecordFailure [1 * Second, 2 * Second] (NewCircuitBreaker 2 1 (60 * Second))))) = True \<and>
   state ((RecordSuccess ^^ 1) (snd (CanExecute (63 * Second)
     (fold RecordFailure [1 * Second, 2 * Second] (NewCircuitBreaker 2 1 (60 * Second)))))) = StateClosed"
proof -
  let ?cb = "NewCircuitBreaker 2 1 (60 * Second)"
  let ?ts = "[1 * Second, 2 * Second]"
  have h: "breaker_inv ?cb" "state ?cb = StateClosed" "int (length ?ts) = failureThreshold ?cb"
    by (simp_all add: NewCircuitBreaker_def breaker_inv_def)
  have t: "time_Since (62 * Second) (last ?ts) \<le> 60 * Second"
    "time_Since (63 * Second) (last ?ts) > 60 * Second"
    by (simp_all add: time_Since_def time_Sub_def Second_def maxDuration_def minDuration_def)
  have cfg: "timeout ?cb = 60 * Second" "nat (successThreshold ?cb) = 1"
    by (simp_all add: NewCircuitBreaker_def)
  from C4_breaker_cycle [OF h] t cfg h(2) h(3) show ?thesis
    by (metis fst_conv)
qed


section \<open>Rate limiter: properties\<close>

declare WaitForToken.simps [simp del]

lemma refill_locked: "mu_locked (refill now rl) = mu_locked rl"
  by (simp add: refill_def Let_def)

lemma WaitForToken_locked: "mu_locked rl \<Longrightarrow> WaitForToken maxWait now rl = (TokenBlocked, [], rl)"
  by (subst WaitForToken.simps) simp

text \<open>
  What a call on a free limiter does. When the computed wait fits the budget, the call
  sleeps and calls itself while it still holds the mutex; that inner call blocks in
  \<^verbatim>\<open>Lock\<close>, so the outer call never returns.
\<close>

lemma WaitForToken_unlocked:
  assumes "\<not> mu_locked rl"
  shows "WaitForToken maxWait now rl =
     (let rl1 = refill now (rl\<lparr>mu_locked := True\<rparr>) in
      if tokens rl1 \<ge> 1
      then (TokenReturned 0 None, [], rl1\<lparr>tokens := tokens rl1 - 1, mu_locked := False\<rparr>)
      else
        (case waitDuration_for rl1 of
           None \<Rightarrow> (TokenUnspecified, [], rl1)
         | Some waitDuration \<Rightarrow>
             if waitDuration > maxWait
             then (TokenReturned 0 (Some (ErrRateLimit waitDuration maxWait)), [],
                   rl1\<lparr>mu_locked := False\<rparr>)
             else (TokenBlocked,
                   [Sleep (wrap64 (waitDuration + 100 * Millisecond)),
                    Reenter (wrap64 (maxWait - waitDuration))], rl1)))"
proof -
  have l: "mu_locked (refill now (rl\<lparr>mu_locked := True\<rparr>))" by (simp add: refill_locked)
  show ?thesis
    by (subst WaitForToken.simps)
       (simp add: assms Let_def WaitForToken_locked [OF l] split: option.splits)
qed













text \<open>
  The call that sleeps never returns: it calls itself while it holds the mutex, and the
  inner \<^verbatim>\<open>rl.mu.Lock()\<close> waits for a release that only the outer call would make.
\<close>

lemma WaitForToken_waiting_call_blocks:
  assumes "\<not> mu_locked rl" and "tokens (refill now (rl\<lparr>mu_locked := True\<rparr>)) < 1"
    and "waitDuration_for (refill now (rl\<lparr>mu_locked := True\<rparr>)) = Some d" and "d \<le> maxWait"
  shows "fst (WaitForToken maxWait now rl) = TokenBlocked"
  using assms(2-4) by (simp add: WaitForToken_unlocked [OF assms(1)] Let_def)

lemma WaitForToken_waiting_call_blocks_example:
  "fst (WaitForToken (5 * Second) 0
          (snd (WaitForToken_calls (5 * Second) (replicate 15 0) (NewRateLimiter 15 0)))) =
     TokenBlocked"
  by code_simp


section \<open>Retry loop: properties\<close>

declare retry_loop.simps [simp del]

lemma retry_loop_succeeds_after:
  assumes "\<forall>j<n. outcome (k + j) \<noteq> None" and "outcome (k + n) = None"
    and "attempt + int n < MaxAttempts cfg"
  shows "retry_loop fmul counted_sleep (counted_op outcome) cfg attempt b slept k =
           (None, slept @ backoffs fmul cfg b n, Suc (k + n))"
  using assms
proof (induction n arbitrary: attempt b slept k)
  case 0
  then show ?case
    by (subst retry_loop.simps) (simp add: counted_op_def)
next
  case (Suc n)
  from Suc.prems(1) obtain err where err: "outcome k = Some err"
    by (metis add.right_neutral not_None_eq zero_less_Suc)
  let ?b = "if fmul b (BackoffMultiplier cfg) > MaxBackoff cfg then MaxBackoff cfg
            else fmul b (BackoffMultiplier cfg)"
  have "retry_loop fmul counted_sleep (counted_op outcome) cfg (attempt + 1) ?b (slept @ [b]) (Suc k) =
          (None, (slept @ [b]) @ backoffs fmul cfg ?b n, Suc (Suc k + n))"
  proof (rule Suc.IH)
    show "\<forall>j<n. outcome (Suc k + j) \<noteq> None"
      using Suc.prems(1) by (metis Suc_less_eq add_Suc_shift)
    show "outcome (Suc k + n) = None" using Suc.prems(2) by simp
    show "attempt + 1 + int n < MaxAttempts cfg" using Suc.prems(3) by simp
  qed
  moreover have "attempt < MaxAttempts cfg" "\<not> attempt + 1 \<ge> MaxAttempts cfg"
    using Suc.prems(3) by simp_all
  ultimately show ?case
    by (subst retry_loop.simps) (simp add: counted_op_def counted_sleep_def err Let_def)
qed

lemma retry_loop_exhausts:
  assumes "\<forall>j\<le>n. outcome (k + j) = Some (errs (k + j))"
    and "attempt + int n + 1 = MaxAttempts cfg"
  shows "retry_loop fmul counted_sleep (counted_op outcome) cfg attempt b slept k =
           (Some (ErrFailedAfter (MaxAttempts cfg) (errs (k + n))),
            slept @ backoffs fmul cfg b n, Suc (k + n))"
  using assms
proof (induction n arbitrary: attempt b slept k)
  case 0
  then show ?case
    by (subst retry_loop.simps) (simp add: counted_op_def)
next
  case (Suc n)
  have err: "outcome k = Some (errs k)"
    using Suc.prems(1) by (metis add.right_neutral le0)
  let ?b = "if fmul b (BackoffMultiplier cfg) > MaxBackoff cfg then MaxBackoff cfg
            else fmul b (BackoffMultiplier cfg)"
  have "retry_loop fmul counted_sleep (counted_op outcome) cfg (attempt + 1) ?b (slept @ [b]) (Suc k) =
          (Some (ErrFailedAfter (MaxAttempts cfg) (errs (Suc k + n))),
           (slept @ [b]) @ backoffs fmul cfg ?b n, Suc (Suc k + n))"
  proof (rule Suc.IH)
    show "\<forall>j\<le>n. outcome (Suc k + j) = Some (errs (Suc k + j))"
      using Suc.prems(1) by (metis Suc_le_mono add_Suc_shift)
    show "attempt + 1 + int n + 1 = MaxAttempts cfg" using Suc.prems(2) by simp
  qed
  moreover have "attempt < MaxAttempts cfg" "\<not> attempt + 1 \<ge> MaxAttempts cfg"
    using Suc.prems(2) by simp_all
  ultimately show ?case
    by (subst retry_loop.simps) (simp add: counted_op_def counted_sleep_def err Let_def)
qed

lemma backoffs_length: "length (backoffs fmul cfg b n) = n"
  by (induction n arbitrary: b) simp_all

lemma backoffs_capped:
  "b \<le> MaxBackoff cfg \<Longrightarrow> d \<in> set (backoffs fmul cfg b n) \<Longrightarrow> d \<le> MaxBackoff cfg"
proof (induction n arbitrary: b)
  case 0
  then show ?case by simp
next
  case (Suc n)
  let ?b = "if fmul b (BackoffMultiplier cfg) > MaxBackoff cfg then MaxBackoff cfg
            else fmul b (BackoffMultiplier cfg)"
  have "?b \<le> MaxBackoff cfg" by simp
  from Suc.IH [OF this] Suc.prems show ?case by auto
qed

lemma backoffs_tl_capped:
  "d \<in> set (tl (backoffs fmul cfg b n)) \<Longrightarrow> d \<le> MaxBackoff cfg"
proof (cases n)
  case 0
  then show "d \<in> set (tl (backoffs fmul cfg b n)) \<Longrightarrow> d \<le> MaxBackoff cfg" by simp
next
  case (Suc m)
  let ?b = "if fmul b (BackoffMultiplier cfg) > MaxBackoff cfg then MaxBackoff cfg
            else fmul b (BackoffMultiplier cfg)"
  assume "d \<in> set (tl (backoffs fmul cfg b n))"
  then have "d \<in> set (backoffs fmul cfg ?b m)" using Suc by simp
  moreover have "?b \<le> MaxBackoff cfg" by simp
  ultimately show "d \<le> MaxBackoff cfg" by (rule backoffs_capped [rotated])
qed

lemma capped_sum_le_min_time_slept:
  "sum_list (map (min m) ds) \<le> min_time_slept ds"
  unfolding min_time_slept_def by (induction ds) auto

text \<open>
  Claim C5. The retry loop of \<^verbatim>\<open>HandleCheckedOut\<close>, for a body that decodes and at
  least one attempt allowed. (a) When the wrapped call fails on exactly the first
  \<open>MaxAttempts - 1\<close> calls and succeeds on the next, the handler returns nil after
  \<open>MaxAttempts\<close> calls, having slept between the attempts the \<open>MaxAttempts - 1\<close> backoff
  intervals \<open>InitialBackoff\<close>, then each previous interval scaled and capped at
  \<open>MaxBackoff\<close>. (b) When every call fails, it returns, after exactly \<open>MaxAttempts\<close> calls
  and the same sleeps, the error that carries the attempt count and the error of the last
  call. (c) The time these sleeps take is at least the sum of the intervals, each capped at
  \<open>MaxBackoff\<close>; every interval after the first is at most \<open>MaxBackoff\<close>, and so is the
  first when \<open>InitialBackoff \<le> MaxBackoff\<close> (as in the only configuration the program
  builds).
\<close>

theorem C5_retry_loop:
  assumes dec: "unmarshal body = Some ev"
    and pos: "1 \<le> MaxAttempts cfg"
  shows "((\<forall>k < nat (MaxAttempts cfg) - 1. outcome k \<noteq> None) \<and>
          outcome (nat (MaxAttempts cfg) - 1) = None \<longrightarrow>
            HandleCheckedOut fmul counted_sleep (\<lambda>ev. counted_op outcome) cfg unmarshal body 0 =
              (None, backoffs fmul cfg (InitialBackoff cfg) (nat (MaxAttempts cfg) - 1),
               nat (MaxAttempts cfg))) \<and>
         HandleCheckedOut fmul counted_sleep (\<lambda>ev. counted_op (\<lambda>k. Some (errs k))) cfg unmarshal body 0 =
           (Some (ErrFailedAfter (MaxAttempts cfg) (errs (nat (MaxAttempts cfg) - 1))),
            backoffs fmul cfg (InitialBackoff cfg) (nat (MaxAttempts cfg) - 1),
            nat (MaxAttempts cfg)) \<and>
         sum_list (map (min (MaxBackoff cfg))
             (backoffs fmul cfg (InitialBackoff cfg) (nat (MaxAttempts cfg) - 1)))
           \<le> min_time_slept (backoffs fmul cfg (InitialBackoff cfg) (nat (MaxAttempts cfg) - 1)) \<and>
         (\<forall>d \<in> set (tl (backoffs fmul cfg (InitialBackoff cfg) (nat (MaxAttempts cfg) - 1))).
            d \<le> MaxBackoff cfg) \<and>
         (InitialBackoff cfg \<le> MaxBackoff cfg \<longrightarrow>
            (\<forall>d \<in> set (backoffs fmul cfg (InitialBackoff cfg) (nat (MaxAttempts cfg) - 1)).
               d \<le> MaxBackoff cfg))"
proof -
  let ?n = "nat (MaxAttempts cfg) - 1"
  have n: "int ?n + 1 = MaxAttempts cfg" "Suc ?n = nat (MaxAttempts cfg)"
    using pos by simp_all
  have a: "retry_loop fmul counted_sleep (counted_op outcome) cfg 0 (InitialBackoff cfg) [] 0 =
             (None, [] @ backoffs fmul cfg (InitialBackoff cfg) ?n, Suc (0 + ?n))"
    if "\<forall>k < ?n. outcome k \<noteq> None" and "outcome ?n = None"
    using that n(1) by (intro retry_loop_succeeds_after) simp_all
  have b: "retry_loop fmul counted_sleep (counted_op (\<lambda>k. Some (errs k))) cfg 0 (InitialBackoff cfg) [] 0 =
             (Some (ErrFailedAfter (MaxAttempts cfg) (errs (0 + ?n))),
              [] @ backoffs fmul cfg (InitialBackoff cfg) ?n, Suc (0 + ?n))"
    using n(1) by (intro retry_loop_exhausts) simp_all
  have c: "\<forall>d \<in> set (tl (backoffs fmul cfg (InitialBackoff cfg) ?n)). d \<le> MaxBackoff cfg"
    using backoffs_tl_capped by blast
  have d: "\<forall>d \<in> set (backoffs fmul cfg (InitialBackoff cfg) ?n). d \<le> MaxBackoff cfg"
    if "InitialBackoff cfg \<le> MaxBackoff cfg"
    using that backoffs_capped by blast
  show ?thesis
    using a b c d n(2)
      capped_sum_le_min_time_slept [of "MaxBackoff cfg" "backoffs fmul cfg (InitialBackoff cfg) ?n"]
    by (simp add: HandleCheckedOut_def dec)
qed

theorem C5_retry_loop_witness:
  "HandleCheckedOut (\<lambda>b m. b * m) counted_sleep
       (\<lambda>ev. counted_op (\<lambda>k. if k < 4 then Some k else None))
       (NewLaborCostReporter_retryConfig (2::int)) (\<lambda>b. Some b) ''e'' 0 =
     (None, [1 * Second, 2 * Second, 4 * Second, 8 * Second], 5) \<and>
   HandleCheckedOut (\<lambda>b m. b * m) counted_sleep
       (\<lambda>ev. counted_op (\<lambda>k. Some k))
       (NewLaborCostReporter_retryConfig (2::int)) (\<lambda>b. Some b) ''e'' 0 =
     (Some (ErrFailedAfter 5 4), [1 * Second, 2 * Second, 4 * Second, 8 * Second], 5) \<and>
   15 * Second \<le> min_time_slept [1 * Second, 2 * Second, 4 * Second, 8 * Second]"
proof -
  let ?cfg = "NewLaborCostReporter_retryConfig (2::int)"
  have h: "1 \<le> MaxAttempts ?cfg"
    by (simp add: NewLaborCostReporter_retryConfig_def)
  have m: "MaxAttempts ?cfg = 5" "MaxBackoff ?cfg = 30 * Second"
    by (simp_all add: NewLaborCostReporter_retryConfig_def)
  have bs: "backoffs (\<lambda>b m. b * m) ?cfg (InitialBackoff ?cfg) 4 =
              [1 * Second, 2 * Second, 4 * Second, 8 * Second]"
    by (simp add: NewLaborCostReporter_retryConfig_def Second_def eval_nat_numeral)
  from C5_retry_loop [where unmarshal = "\<lambda>b. Some b" and body = "''e''" and ev = "''e''"
      and cfg = ?cfg and outcome = "\<lambda>k. if k < 4 then Some k else None"
      and fmul = "\<lambda>b m. b * m" and errs = "\<lambda>k. k", OF _ h]
  show ?thesis
    by (simp add: m bs Second_def min_time_slept_def)
qed


section \<open>Broker consumer: properties\<close>

lemma consume_loop_log:
  assumes "\<forall>(tag, body, res, act) \<in> set lg.
             (\<exists>w0. res = fst (handler body w0)) \<and>
             act = (if res = None then Ack tag False else Nack tag False True)"
  shows "\<forall>(tag, body, res, act) \<in> set (fst (snd (consume_loop handler es lg w))).
             (\<exists>w0. res = fst (handler body w0)) \<and>
             act = (if res = None then Ack tag False else Nack tag False True)"
  using assms
proof (induction es arbitrary: lg w)
  case Nil
  then show ?case by simp
next
  case (Cons e es)
  show ?case
  proof (cases e)
    case CtxDone
    with Cons.prems show ?thesis by simp
  next
    case ChanClosed
    with Cons.prems show ?thesis by simp
  next
    case (Delivery tag body)
    obtain r w1 where h: "handler body w = (r, w1)" by (cases "handler body w")
    let ?act = "if r = None then Ack tag False else Nack tag False True"
    have r: "\<exists>w0. r = fst (handler body w0)" using h by (metis fst_conv)
    have "\<forall>(tag, body, res, act) \<in> set (lg @ [(tag, body, r, ?act)]).
             (\<exists>w0. res = fst (handler body w0)) \<and>
             act = (if res = None then Ack tag False else Nack tag False True)"
      using Cons.prems r by auto
    from Cons.IH [OF this, of w1] show ?thesis
      using Delivery h by (cases r) simp_all
  qed
qed

lemma consume_loop_processed:
  "map (\<lambda>(tag, body, res, act). (tag, body)) (fst (snd (consume_loop handler es lg w))) =
     map (\<lambda>(tag, body, res, act). (tag, body)) lg @ processed es"
proof (induction es arbitrary: lg w)
  case Nil
  then show ?case by simp
next
  case (Cons e es)
  show ?case
  proof (cases e)
    case CtxDone
    then show ?thesis by simp
  next
    case ChanClosed
    then show ?thesis by simp
  next
    case (Delivery tag body)
    obtain r w1 where h: "handler body w = (r, w1)" by (cases "handler body w")
    let ?act = "if r = None then Ack tag False else Nack tag False True"
    from Cons.IH [of "lg @ [(tag, body, r, ?act)]" w1] show ?thesis
      using Delivery h by (cases r) simp_all
  qed
qed

lemma labor_cost_handler_malformed:
  "unmarshal body = None \<Longrightarrow>
     fst (labor_cost_handler fmul sleep op cfg unmarshal body w) = Some ErrUnmarshal"
  by (simp add: labor_cost_handler_def HandleCheckedOut_def)

text \<open>
  Claim C10. In every run of \<^verbatim>\<open>Consume\<close>, whatever the handler: each logged delivery
  was acknowledged exactly when the handler returned nil and negatively acknowledged with
  requeue exactly when it returned an error, and (once the consumer is registered) the
  logged deliveries are exactly those received before the loop returned, in order. With the
  labor-cost handler, a body that fails to deserialize makes the handler return the
  unmarshal error, and its delivery is negatively acknowledged with requeue.
\<close>

theorem C10_ack_iff_handler_nil:
  "(\<forall>(tag, body, res, act) \<in> set (fst (snd (Consume registered handler es w))).
      (act = Ack tag False \<longleftrightarrow> res = None) \<and>
      (act = Nack tag False True \<longleftrightarrow> res \<noteq> None) \<and>
      (\<exists>w0. res = fst (handler body w0))) \<and>
   (registered \<longrightarrow>
      map (\<lambda>(tag, body, res, act). (tag, body)) (fst (snd (Consume registered handler es w))) =
        processed es) \<and>
   (\<forall>(tag, body, res, act) \<in>
        set (fst (snd (Consume registered (labor_cost_handler fmul sleep op cfg unmarshal) es' w'))).
      unmarshal body = None \<longrightarrow> res = Some ErrUnmarshal \<and> act = Nack tag False True)"
proof -
  have inv: "\<forall>(tag, body, res, act) \<in> set (fst (snd (Consume registered h es w))).
             (\<exists>w0. res = fst (h body w0)) \<and>
             act = (if res = None then Ack tag False else Nack tag False True)"
    for registered and h :: "'x \<Rightarrow> 'y \<Rightarrow> 'z option \<times> 'y" and es w
    using consume_loop_log [of "[]" h es w] by (simp add: Consume_def)
  have a: "\<forall>(tag, body, res, act) \<in> set (fst (snd (Consume registered handler es w))).
      (act = Ack tag False \<longleftrightarrow> res = None) \<and>
      (act = Nack tag False True \<longleftrightarrow> res \<noteq> None) \<and>
      (\<exists>w0. res = fst (handler body w0))"
    using inv [of registered handler es w] by (auto split: if_splits)
  have b: "registered \<longrightarrow>
      map (\<lambda>(tag, body, res, act). (tag, body)) (fst (snd (Consume registered handler es w))) =
        processed es"
    using consume_loop_processed [of handler es "[]" w] by (simp add: Consume_def)
  have c: "\<forall>(tag, body, res, act) \<in>
        set (fst (snd (Consume registered (labor_cost_handler fmul sleep op cfg unmarshal) es' w'))).
      unmarshal body = None \<longrightarrow> res = Some ErrUnmarshal \<and> act = Nack tag False True"
    using inv [of registered "labor_cost_handler fmul sleep op cfg unmarshal" es' w']
      labor_cost_handler_malformed [of unmarshal _ fmul sleep op cfg]
    by (auto split: if_splits)
  from a b c show ?thesis by blast
qed

theorem C10_ack_iff_handler_nil_witness:
  "(2, ''bad'', Some ErrUnmarshal, Nack 2 False True) \<in>
     set (fst (snd (Consume True
       (labor_cost_handler (\<lambda>b m. b * m) counted_sleep (\<lambda>ev. counted_op (\<lambda>k. None :: nat option))
          (NewLaborCostReporter_retryConfig (2::int)) (\<lambda>b. if b = ''ok'' then Some b else None))
       [Delivery 1 ''ok'', Delivery 2 ''bad'', CtxDone] 0))) \<and>
   (if ''bad'' = ''ok'' then Some ''bad'' else None) = None \<and>
   (1, ''ok'', None, Ack 1 False) \<in>
     set (fst (snd (Consume True
       (labor_cost_handler (\<lambda>b m. b * m) counted_sleep (\<lambda>ev. counted_op (\<lambda>k. None :: nat option))
          (NewLaborCostReporter_retryConfig (2::int)) (\<lambda>b. if b = ''ok'' then Some b else None))
       [Delivery 1 ''ok'', Delivery 2 ''bad'', CtxDone] 0))) \<and>
   map (\<lambda>(tag, body, res, act). (tag, body))
     (fst (snd (Consume True
       (labor_cost_handler (\<lambda>b m. b * m) counted_sleep (\<lambda>ev. counted_op (\<lambda>k. None :: nat option))
          (NewLaborCostReporter_retryConfig (2::int)) (\<lambda>b. if b = ''ok'' then Some b else None))
       [Delivery 1 ''ok'', Delivery 2 ''bad'', CtxDone] 0))) = [(1, ''ok''), (2, ''bad'')]"
proof -
  let ?h = "labor_cost_handler (\<lambda>b m. b * m) counted_sleep (\<lambda>ev. counted_op (\<lambda>k. None :: nat option))
          (NewLaborCostReporter_retryConfig (2::int)) (\<lambda>b. if b = ''ok'' then Some b else None)"
  let ?es = "[Delivery 1 ''ok'', Delivery 2 ''bad'', CtxDone]"
  have lg: "fst (snd (Consume True ?h ?es 0)) =
              [(1, ''ok'', None, Ack 1 False), (2, ''bad'', Some ErrUnmarshal, Nack 2 False True)]"
    by (simp add: Consume_def labor_cost_handler_def HandleCheckedOut_def retry_loop.simps
        counted_op_def NewLaborCostReporter_retryConfig_def)
  from C10_ack_iff_handler_nil [of True ?h ?es 0 "\<lambda>b m. b * m" counted_sleep
      "\<lambda>ev. counted_op (\<lambda>k. None :: nat option)" "NewLaborCostReporter_retryConfig (2::int)"
      "\<lambda>b. if b = ''ok'' then Some b else None" ?es 0]
  show ?thesis
    unfolding lg by simp
qed


section \<open>Persistence: properties\<close>

lemma SaveWithEvent_conn_cases:
  "SaveWithEvent_conn env record event \<lparr>committed = db, tx_work = None\<rparr> =
     (if \<not> begin_ok env then (Some ErrBeginTx, \<lparr>committed = db, tx_work = None\<rparr>)
      else if \<not> record_exec_ok env then (Some ErrSaveTimeRecord, \<lparr>committed = db, tx_work = None\<rparr>)
      else if \<not> marshal_ok env then (Some ErrMarshalEvent, \<lparr>committed = db, tx_work = None\<rparr>)
      else if \<not> outbox_exec_ok env \<or> outbox_uuid env \<in> set (map row_id (outbox_events db))
        then (Some ErrSaveOutboxEvent, \<lparr>committed = db, tx_work = None\<rparr>)
      else if \<not> commit_ok env then (Some ErrCommit, \<lparr>committed = db, tx_work = None\<rparr>)
      else (None,
        \<lparr>committed =
           \<lparr>time_records =
              (if ID record \<in> set (map ID (time_records db))
               then map (\<lambda>x. if ID x = ID record
                              then x\<lparr>CheckOutAt := CheckOutAt record, Status := Status record,
                                     HoursWorked := HoursWorked record\<rparr>
                              else x) (time_records db)
               else time_records db @ [record]),
            outbox_events = outbox_events db @
              [\<lparr> row_id = outbox_uuid env, event_type = EventType event,
                 aggregate_id = ID record, payload = event, created_at = outbox_now env,
                 published = False, published_at = None, retry_count = 0,
                 last_error = None \<rparr>]\<rparr>,
         tx_work = None\<rparr>))"
  by (simp add: SaveWithEvent_conn_def BeginTx_def tx_Exec_def tx_Commit_def tx_Rollback_def
      upsert_time_record_def insert_outbox_event_def)

lemma SaveWithEvent_cases:
  "SaveWithEvent env record event db =
     (if \<not> begin_ok env then (Some ErrBeginTx, db)
      else if \<not> record_exec_ok env then (Some ErrSaveTimeRecord, db)
      else if \<not> marshal_ok env then (Some ErrMarshalEvent, db)
      else if \<not> outbox_exec_ok env \<or> outbox_uuid env \<in> set (map row_id (outbox_events db))
        then (Some ErrSaveOutboxEvent, db)
      else if \<not> commit_ok env then (Some ErrCommit, db)
      else (None,
           \<lparr>time_records =
              (if ID record \<in> set (map ID (time_records db))
               then map (\<lambda>x. if ID x = ID record
                              then x\<lparr>CheckOutAt := CheckOutAt record, Status := Status record,
                                     HoursWorked := HoursWorked record\<rparr>
                              else x) (time_records db)
               else time_records db @ [record]),
            outbox_events = outbox_events db @
              [\<lparr> row_id = outbox_uuid env, event_type = EventType event,
                 aggregate_id = ID record, payload = event, created_at = outbox_now env,
                 published = False, published_at = None, retry_count = 0,
                 last_error = None \<rparr>]\<rparr>))"
  unfolding SaveWithEvent_def SaveWithEvent_conn_cases by simp

lemma upserted_row_present:
  "\<exists>x \<in> set (if ID record \<in> set (map ID rows)
               then map (\<lambda>x. if ID x = ID record
                              then x\<lparr>CheckOutAt := CheckOutAt record, Status := Status record,
                                     HoursWorked := HoursWorked record\<rparr>
                              else x) rows
               else rows @ [record]).
     ID x = ID record \<and> CheckOutAt x = CheckOutAt record \<and> Status x = Status record \<and>
     HoursWorked x = HoursWorked record"
proof (cases "ID record \<in> set (map ID rows)")
  case True
  then obtain y where y: "y \<in> set rows" "ID y = ID record" by auto
  let ?f = "\<lambda>x. if ID x = ID record
                 then x\<lparr>CheckOutAt := CheckOutAt record, Status := Status record,
                        HoursWorked := HoursWorked record\<rparr>
                 else x"
  have "?f y \<in> set (map ?f rows)" using y(1) by (simp only: set_map) (rule imageI)
  then show ?thesis using True y(2) by (intro bexI [of _ "?f y"]) simp_all
next
  case False
  then show ?thesis by simp
qed

text \<open>
  Claim C9. \<^verbatim>\<open>SaveWithEvent\<close> is atomic: when it returns an error the database is
  what it was (neither table has changed); when it returns nil the time-record table holds
  a row with the id, check-out time, status and hours of the record, and the outbox table
  has, after its former rows, the new unpublished row carrying the event. It returns nil
  exactly when every database call and the encoding succeed and the id of the new outbox
  row is not in use.
\<close>

theorem C9_SaveWithEvent_atomic:
  "(fst (SaveWithEvent env record event db) \<noteq> None \<longrightarrow>
      snd (SaveWithEvent env record event db) = db) \<and>
   (fst (SaveWithEvent env record event db) = None \<longrightarrow>
      (\<exists>x \<in> set (time_records (snd (SaveWithEvent env record event db))).
          ID x = ID record \<and> CheckOutAt x = CheckOutAt record \<and> Status x = Status record \<and>
          HoursWorked x = HoursWorked record) \<and>
      outbox_events (snd (SaveWithEvent env record event db)) =
        outbox_events db @
          [\<lparr> row_id = outbox_uuid env, event_type = EventType event,
             aggregate_id = ID record, payload = event, created_at = outbox_now env,
             published = False, published_at = None, retry_count = 0, last_error = None \<rparr>]) \<and>
   (fst (SaveWithEvent env record event db) = None \<longleftrightarrow>
      begin_ok env \<and> record_exec_ok env \<and> marshal_ok env \<and> outbox_exec_ok env \<and>
      commit_ok env \<and> outbox_uuid env \<notin> set (map row_id (outbox_events db)))"
  using upserted_row_present [of "record" "time_records db"]
  by (simp add: SaveWithEvent_cases)

theorem C9_SaveWithEvent_atomic_witness:
  "fst (SaveWithEvent
         \<lparr>begin_ok = True, record_exec_ok = True, marshal_ok = True, outbox_uuid = ''o1'',
          outbox_now = 7, outbox_exec_ok = True, commit_ok = True\<rparr>
         \<lparr>ID = ''r1'', EmployeeID = ''E1'', CheckInAt = 5, CheckOutAt = None,
          Status = StatusCheckedIn, HoursWorked = 0\<rparr>
         (EmployeeCheckedInEvent
            \<lparr>EventID = ''e1'', HeaderEventType = EventTypeEmployeeCheckedIn, Version = 1,
             Timestamp = 6\<rparr> ''E1'' 5 ''r1'')
         \<lparr>time_records = [], outbox_events = []\<rparr>) = None \<and>
   length (outbox_events (snd (SaveWithEvent
         \<lparr>begin_ok = True, record_exec_ok = True, marshal_ok = True, outbox_uuid = ''o1'',
          outbox_now = 7, outbox_exec_ok = True, commit_ok = True\<rparr>
         \<lparr>ID = ''r1'', EmployeeID = ''E1'', CheckInAt = 5, CheckOutAt = None,
          Status = StatusCheckedIn, HoursWorked = 0\<rparr>
         (EmployeeCheckedInEvent
            \<lparr>EventID = ''e1'', HeaderEventType = EventTypeEmployeeCheckedIn, Version = 1,
             Timestamp = 6\<rparr> ''E1'' 5 ''r1'')
         \<lparr>time_records = [], outbox_events = []\<rparr>))) = 1 \<and>
   fst (SaveWithEvent
         \<lparr>begin_ok = True, record_exec_ok = True, marshal_ok = True, outbox_uuid = ''o1'',
          outbox_now = 7, outbox_exec_ok = True, commit_ok = False\<rparr>
         \<lparr>ID = ''r1'', EmployeeID = ''E1'', CheckInAt = 5, CheckOutAt = None,
          Status = StatusCheckedIn, HoursWorked = 0\<rparr>
         (EmployeeCheckedInEvent
            \<lparr>EventID = ''e1'', HeaderEventType = EventTypeEmployeeCheckedIn, Version = 1,
             Timestamp = 6\<rparr> ''E1'' 5 ''r1'')
         \<lparr>time_records = [], outbox_events = []\<rparr>) \<noteq> None \<and>
   snd (SaveWithEvent
         \<lparr>begin_ok = True, record_exec_ok = True, marshal_ok = True, outbox_uuid = ''o1'',
          outbox_now = 7, outbox_exec_ok = True, commit_ok = False\<rparr>
         \<lparr>ID = ''r1'', EmployeeID = ''E1'', CheckInAt = 5, CheckOutAt = None,
          Status = StatusCheckedIn, HoursWorked = 0\<rparr>
         (EmployeeCheckedInEvent
            \<lparr>EventID = ''e1'', HeaderEventType = EventTypeEmployeeCheckedIn, Version = 1,
             Timestamp = 6\<rparr> ''E1'' 5 ''r1'')
         \<lparr>time_records = [], outbox_events = []\<rparr>) = \<lparr>time_records = [], outbox_events = []\<rparr>"
proof -
  let ?rec = "\<lparr>ID = ''r1'', EmployeeID = ''E1'', CheckInAt = 5, CheckOutAt = None,
          Status = StatusCheckedIn, HoursWorked = 0\<rparr>"
  let ?ev = "EmployeeCheckedInEvent
            \<lparr>EventID = ''e1'', HeaderEventType = EventTypeEmployeeCheckedIn, Version = 1,
             Timestamp = 6\<rparr> ''E1'' 5 ''r1''"
  let ?db = "\<lparr>time_records = [], outbox_events = []\<rparr>"
  let ?good = "\<lparr>begin_ok = True, record_exec_ok = True, marshal_ok = True, outbox_uuid = ''o1'',
          outbox_now = 7, outbox_exec_ok = True, commit_ok = True\<rparr>"
  let ?bad = "\<lparr>begin_ok = True, record_exec_ok = True, marshal_ok = True, outbox_uuid = ''o1'',
          outbox_now = 7, outbox_exec_ok = True, commit_ok = False\<rparr>"
  from C9_SaveWithEvent_atomic [of ?good ?rec ?ev ?db] C9_SaveWithEvent_atomic [of ?bad ?rec ?ev ?db]
  show ?thesis by simp
qed

lemma sorted_map_take: "sorted (map f xs) \<Longrightarrow> sorted (map f (take n xs))"
  by (simp add: take_map [symmetric] sorted_wrt_take)

lemma CreatedAt_scan_row: "map CreatedAt (map scan_row rows) = map created_at rows"
  by (simp add: scan_row_def)

text \<open>
  Claim C7. Whenever \<^verbatim>\<open>GetUnpublishedEvents\<close> returns rows (it returns an error when
  the query fails, as PostgreSQL makes it for a negative limit), it returns at most
  \<open>limit\<close> of them; each is a row of the table that is unpublished, of the type
  \<^verbatim>\<open>EmployeeCheckedOut\<close> the query asks for, and not locked by another session; and
  they come in ascending order of creation time. It does return rows when the query
  succeeds and the limit is not negative.
\<close>

theorem C7_GetUnpublishedEvents:
  "(\<forall>events. GetUnpublishedEvents ok locked db limit = Inr events \<longrightarrow>
      int (length events) \<le> limit \<and>
      (\<forall>e \<in> set events.
          Published e = False \<and> EvType e = EventTypeEmployeeCheckedOut \<and>
          (\<exists>r \<in> set (outbox_events db). e = scan_row r \<and> row_id r \<notin> locked)) \<and>
      sorted (map CreatedAt events)) \<and>
   (ok \<and> 0 \<le> limit \<longrightarrow> (\<exists>events. GetUnpublishedEvents ok locked db limit = Inr events))"
proof -
  let ?eligible = "filter (\<lambda>r. \<not> published r \<and> event_type r = EventTypeEmployeeCheckedOut \<and>
                                row_id r \<notin> locked) (outbox_events db)"
  let ?rows = "take (nat limit) (sort_key created_at ?eligible)"
  have sub: "set ?rows \<subseteq> set ?eligible"
    using set_take_subset [of "nat limit" "sort_key created_at ?eligible"] by simp
  have len: "0 \<le> limit \<Longrightarrow> int (length (map scan_row ?rows)) \<le> limit" by simp
  have each: "\<forall>e \<in> set (map scan_row ?rows).
          Published e = False \<and> EvType e = EventTypeEmployeeCheckedOut \<and>
          (\<exists>r \<in> set (outbox_events db). e = scan_row r \<and> row_id r \<notin> locked)"
  proof
    fix e assume "e \<in> set (map scan_row ?rows)"
    then obtain r where r: "r \<in> set ?rows" "e = scan_row r" by auto
    with sub have "r \<in> set ?eligible" by blast
    then show "Published e = False \<and> EvType e = EventTypeEmployeeCheckedOut \<and>
          (\<exists>r \<in> set (outbox_events db). e = scan_row r \<and> row_id r \<notin> locked)"
      using r(2) by (auto simp: scan_row_def)
  qed
  have srt: "sorted (map CreatedAt (map scan_row ?rows))"
    unfolding CreatedAt_scan_row by (intro sorted_map_take sorted_sort_key)
  show ?thesis
    using len each srt by (auto simp: GetUnpublishedEvents_def simp del: set_map)
qed

theorem C7_GetUnpublishedEvents_witness:
  "GetUnpublishedEvents True {} ex_db 2 =
     Inr [scan_row (ex_row ''o3'' (ex_checkout_event ''e3'' ''E3'' ''r3'' (200 * Second)) ''r3''
            (200 * Second) False),
          scan_row (ex_row ''o2'' (ex_checkout_event ''e2'' ''E2'' ''r2'' (300 * Second)) ''r2''
            (300 * Second) False)] \<and>
   sorted (map CreatedAt
        [scan_row (ex_row ''o3'' (ex_checkout_event ''e3'' ''E3'' ''r3'' (200 * Second)) ''r3''
            (200 * Second) False),
          scan_row (ex_row ''o2'' (ex_checkout_event ''e2'' ''E2'' ''r2'' (300 * Second)) ''r2''
            (300 * Second) False)]) \<and>
   Published (scan_row (ex_row ''o3'' (ex_checkout_event ''e3'' ''E3'' ''r3'' (200 * Second)) ''r3''
            (200 * Second) False)) = False \<and>
   EvType (scan_row (ex_row ''o3'' (ex_checkout_event ''e3'' ''E3'' ''r3'' (200 * Second)) ''r3''
            (200 * Second) False)) = EventTypeEmployeeCheckedOut"
proof -
  let ?e3 = "scan_row (ex_row ''o3'' (ex_checkout_event ''e3'' ''E3'' ''r3'' (200 * Second)) ''r3''
            (200 * Second) False)"
  let ?e2 = "scan_row (ex_row ''o2'' (ex_checkout_event ''e2'' ''E2'' ''r2'' (300 * Second)) ''r2''
            (300 * Second) False)"
  have ev: "GetUnpublishedEvents True {} ex_db 2 = Inr [?e3, ?e2]"
    by code_simp
  from C7_GetUnpublishedEvents [of True "{}" ex_db 2] ev show ?thesis
    by simp
qed


section \<open>Check-out service: properties\<close>





text \<open>
  A check-out request that follows a successful one is rejected too, whenever it comes:
  the record is no longer active (provided it was the employee's only active record), so
  the lookup finds nothing, and the database stays as the first check-out left it.
\<close>

lemma CheckOut_after_CheckOut_rejected:
  assumes first: "CheckOut env dupWindow db employeeID = (Inr rec, db1)"
    and single: "\<forall>x \<in> set (time_records db).
                   EmployeeID x = employeeID \<and> Status x = StatusCheckedIn \<longrightarrow> ID x = ID rec"
  shows "CheckOut env2 dupWindow2 db1 employeeID = (Inl ErrNoActiveCheckInFoundConst, db1)"
proof -
  from first obtain r where
    fa: "FindActiveByEmployeeID (find_ok env) db employeeID = Inr (Some r)"
    by (cases "FindActiveByEmployeeID (find_ok env) db employeeID")
       (auto simp: CheckOut_def split: option.splits)
  have rin: "r \<in> set (time_records db)"
  proof -
    let ?xs = "filter (\<lambda>r. EmployeeID r = employeeID \<and> Status r = StatusCheckedIn) (time_records db)"
    from fa obtain rs where "sort_key (\<lambda>r. - CheckInAt r) ?xs = r # rs"
      by (auto simp: FindActiveByEmployeeID_def split: if_splits list.splits)
    then have "r \<in> set (sort_key (\<lambda>r. - CheckInAt r) ?xs)"
      by (metis list.set_intros(1))
    then show ?thesis by simp
  qed
  from first fa obtain ev where
    rec: "TimeRecord_CheckOut (entity_now env) r = Inr rec"
    and sv: "SaveWithEvent (save env) rec ev db = (None, db1)"
    by (auto simp: CheckOut_def Let_def split: if_splits sum.splits option.splits prod.splits)
  from rec have id: "ID rec = ID r" and st: "Status rec = StatusCheckedOut"
    by (auto simp: TimeRecord_CheckOut_def split: if_splits)
  have "ID rec \<in> set (map ID (time_records db))" using rin id by force
  with sv have tr: "time_records db1 =
      map (\<lambda>x. if ID x = ID rec
                then x\<lparr>CheckOutAt := CheckOutAt rec, Status := Status rec,
                       HoursWorked := HoursWorked rec\<rparr>
                else x) (time_records db)"
    by (auto simp: SaveWithEvent_cases split: if_splits)
  have "filter (\<lambda>r. EmployeeID r = employeeID \<and> Status r = StatusCheckedIn) (time_records db1) = []"
    unfolding tr using single st by (auto simp: filter_empty_conv)
  then have "FindActiveByEmployeeID ok db1 employeeID = Inl ErrFindActive \<or>
             FindActiveByEmployeeID ok db1 employeeID = Inr None" for ok
    by (simp add: FindActiveByEmployeeID_def)
  from this [of "find_ok env2"] show ?thesis
    by (auto simp: CheckOut_def)
qed


section \<open>Outbox invariants\<close>

lemma row_evolves_refl: "row_evolves r r"
  by (simp add: row_evolves_def)

lemma row_evolves_trans: "row_evolves a b \<Longrightarrow> row_evolves b c \<Longrightarrow> row_evolves a c"
  by (simp add: row_evolves_def)

lemma outbox_evolves_nth:
  "outbox_evolves db db1 \<longleftrightarrow>
     length (outbox_events db) \<le> length (outbox_events db1) \<and>
     (\<forall>i < length (outbox_events db). row_evolves (outbox_events db ! i) (outbox_events db1 ! i))"
  by (auto simp: outbox_evolves_def list_all2_conv_all_nth)

lemma outbox_evolves_refl: "outbox_evolves db db"
  by (simp add: outbox_evolves_nth row_evolves_refl)

lemma outbox_evolves_trans:
  assumes "outbox_evolves a b" and "outbox_evolves b c"
  shows "outbox_evolves a c"
proof -
  have len: "length (outbox_events a) \<le> length (outbox_events b)"
    "length (outbox_events b) \<le> length (outbox_events c)"
    using assms by (simp_all add: outbox_evolves_nth)
  have "row_evolves (outbox_events a ! i) (outbox_events c ! i)"
    if "i < length (outbox_events a)" for i
  proof -
    have "row_evolves (outbox_events a ! i) (outbox_events b ! i)"
      using assms(1) that by (simp add: outbox_evolves_nth)
    moreover have "row_evolves (outbox_events b ! i) (outbox_events c ! i)"
      using assms(2) that len(1) by (simp add: outbox_evolves_nth)
    ultimately show ?thesis by (rule row_evolves_trans)
  qed
  then show ?thesis using len by (simp add: outbox_evolves_nth)
qed

lemma outbox_evolves_map:
  assumes "\<And>r. row_evolves r (f r)"
  shows "outbox_evolves db (db\<lparr>outbox_events := map f (outbox_events db)\<rparr>)"
  using assms by (simp add: outbox_evolves_nth)

lemma outbox_evolves_append:
  "outbox_events db1 = outbox_events db @ new \<Longrightarrow> outbox_evolves db db1"
  by (simp add: outbox_evolves_nth nth_append row_evolves_refl)

lemma MarkAsPublished_evolves:
  "outbox_evolves db (snd (MarkAsPublished ok now db eventID))"
proof (cases ok)
  case True
  have "outbox_evolves db (db\<lparr>outbox_events :=
          map (\<lambda>r. if row_id r = eventID
                    then r\<lparr>published := True, published_at := Some now\<rparr> else r)
              (outbox_events db)\<rparr>)"
    by (rule outbox_evolves_map) (simp add: row_evolves_def)
  with True show ?thesis by (simp add: MarkAsPublished_def)
next
  case False
  then show ?thesis by (simp add: MarkAsPublished_def outbox_evolves_refl)
qed

lemma IncrementRetryCount_cases:
  "snd (IncrementRetryCount ok db eventID msg) = db \<or>
   snd (IncrementRetryCount ok db eventID msg) =
     db\<lparr>outbox_events :=
          map (\<lambda>r. if row_id r = eventID
                    then r\<lparr>retry_count := retry_count r + 1, last_error := Some msg\<rparr>
                    else r)
              (outbox_events db)\<rparr>"
  by (simp add: IncrementRetryCount_def)

lemma IncrementRetryCount_evolves:
  "outbox_evolves db (snd (IncrementRetryCount ok db eventID msg))"
proof -
  have "outbox_evolves db (db\<lparr>outbox_events :=
          map (\<lambda>r. if row_id r = eventID
                    then r\<lparr>retry_count := retry_count r + 1, last_error := Some msg\<rparr>
                    else r)
              (outbox_events db)\<rparr>)"
    by (rule outbox_evolves_map) (simp add: row_evolves_def)
  then show ?thesis
    using IncrementRetryCount_cases [of ok db eventID msg] outbox_evolves_refl [of db] by auto
qed

lemma SaveWithEvent_error:
  "fst (SaveWithEvent env record event db) \<noteq> None \<longrightarrow>
     snd (SaveWithEvent env record event db) = db"
  by (simp add: SaveWithEvent_cases)

lemma SaveWithEvent_success:
  "fst (SaveWithEvent env record event db) = None \<longrightarrow>
     outbox_events (snd (SaveWithEvent env record event db)) =
        outbox_events db @
          [\<lparr> row_id = outbox_uuid env, event_type = EventType event,
             aggregate_id = ID record, payload = event, created_at = outbox_now env,
             published = False, published_at = None, retry_count = 0, last_error = None \<rparr>]"
  by (simp add: SaveWithEvent_cases)

lemma SaveWithEvent_evolves:
  "outbox_evolves db (snd (SaveWithEvent env record event db))"
proof (cases "fst (SaveWithEvent env record event db)")
  case None
  with SaveWithEvent_success [of env "record" event db] show ?thesis
    by (simp add: outbox_evolves_append)
next
  case (Some e)
  with SaveWithEvent_error [of env "record" event db] show ?thesis
    by (simp add: outbox_evolves_refl)
qed

lemma publish_events_evolves:
  "outbox_evolves db (snd (publish_events env events sent db))"
proof (induction events arbitrary: sent db)
  case Nil
  then show ?case by (simp add: outbox_evolves_refl)
next
  case (Cons event events)
  show ?case
  proof (cases "publish_result env (EvID event)")
    case None
    let ?db = "snd (MarkAsPublished (update_ok env (EvID event)) (mark_now env (EvID event))
                    db (EvID event))"
    have "outbox_evolves db ?db" by (rule MarkAsPublished_evolves)
    moreover have "outbox_evolves ?db (snd (publish_events env events (sent @ [event]) ?db))"
      by (rule Cons.IH)
    ultimately show ?thesis using None by (simp add: outbox_evolves_trans)
  next
    case (Some msg)
    let ?db = "snd (IncrementRetryCount (update_ok env (EvID event)) db (EvID event) msg)"
    have "outbox_evolves db ?db" by (rule IncrementRetryCount_evolves)
    moreover have "outbox_evolves ?db (snd (publish_events env events (sent @ [event]) ?db))"
      by (rule Cons.IH)
    ultimately show ?thesis using Some by (simp add: outbox_evolves_trans)
  qed
qed

lemma poll_cycle_evolves: "outbox_evolves db (snd (poll_cycle env maxEvents db))"
  by (simp add: poll_cycle_def outbox_evolves_refl publish_events_evolves split: sum.splits)

lemma CheckIn_evolves: "outbox_evolves db (snd (CheckIn env db employeeID))"
proof -
  have "outbox_evolves db (snd (case SaveWithEvent s r e db of
                     (Some x, db1) \<Rightarrow> (Inl (ErrFailedToSaveCheckIn x), db1)
                   | (None, db1) \<Rightarrow> (Inr r, db1)))" for s r e
    using SaveWithEvent_evolves [of db s r e]
    by (cases "SaveWithEvent s r e db") (auto split: option.splits)
  then show ?thesis
    by (simp add: CheckIn_def Let_def outbox_evolves_refl split: sum.splits option.splits)
qed

lemma CheckOut_evolves: "outbox_evolves db (snd (CheckOut env dupWindow db employeeID))"
proof -
  have "outbox_evolves db (snd (case SaveWithEvent s r e db of
                     (Some x, db1) \<Rightarrow> (Inl (ErrFailedToSaveCheckOut x), db1)
                   | (None, db1) \<Rightarrow> (Inr r, db1)))" for s r e
    using SaveWithEvent_evolves [of db s r e]
    by (cases "SaveWithEvent s r e db") (auto split: option.splits)
  then show ?thesis
    by (simp add: CheckOut_def Let_def outbox_evolves_refl split: sum.splits option.splits)
qed

lemma insort_key_map:
  assumes "\<And>y. g (f y) = h y"
  shows "insort_key g (f x) (map f xs) = map f (insort_key h x xs)"
  by (induction xs) (simp_all add: assms)

lemma sort_key_map:
  assumes "\<And>y. g (f y) = h y"
  shows "sort_key g (map f xs) = map f (sort_key h xs)"
  by (induction xs) (simp_all add: insort_key_map [of g f h, OF assms])

lemma GetUnpublishedEvents_map:
  assumes "\<And>r. row_id (f r) = row_id r" and "\<And>r. published (f r) = published r"
    and "\<And>r. event_type (f r) = event_type r" and "\<And>r. created_at (f r) = created_at r"
  shows "map_sum id (map EvID)
           (GetUnpublishedEvents ok locked (db\<lparr>outbox_events := map f (outbox_events db)\<rparr>) limit) =
         map_sum id (map EvID) (GetUnpublishedEvents ok locked db limit)"
proof -
  let ?P = "\<lambda>r. \<not> published r \<and> event_type r = EventTypeEmployeeCheckedOut \<and> row_id r \<notin> locked"
  have "filter ?P (map f (outbox_events db)) = map f (filter ?P (outbox_events db))"
    by (simp add: filter_map o_def assms)
  moreover have "sort_key created_at (map f ys) = map f (sort_key created_at ys)" for ys
    by (rule sort_key_map) (rule assms(4))
  moreover have "map EvID (map scan_row (map f zs)) = map EvID (map scan_row zs)" for zs
    by (simp add: scan_row_def assms(1))
  ultimately show ?thesis
    by (simp add: GetUnpublishedEvents_def take_map del: map_map)
qed

text \<open>
  Claim C8. Every operation that writes the outbox table keeps its invariants: the rows
  it found are still there, in place, with the same id, type, aggregate id, payload and
  creation time, and a row that was published is still published. This holds for the row
  insertion of \<^verbatim>\<open>SaveWithEvent\<close>, for \<^verbatim>\<open>MarkAsPublished\<close> and for
  \<^verbatim>\<open>IncrementRetryCount\<close>, hence for the services and for the relay's poll cycle, which
  write the table through them only (\<^verbatim>\<open>GetUnpublishedEvents\<close> is a query: it returns
  rows and no table). \<^verbatim>\<open>IncrementRetryCount\<close> changes nothing but the retry count and
  the last error of a row, and afterwards \<^verbatim>\<open>GetUnpublishedEvents\<close> returns the rows of
  the same ids as before.
\<close>

theorem C8_outbox_invariants:
  "outbox_evolves db (snd (SaveWithEvent senv record event db)) \<and>
   outbox_evolves db (snd (MarkAsPublished ok now db eventID)) \<and>
   outbox_evolves db (snd (IncrementRetryCount ok db eventID msg)) \<and>
   outbox_evolves db (snd (CheckIn env db employeeID)) \<and>
   outbox_evolves db (snd (CheckOut env dupWindow db employeeID)) \<and>
   outbox_evolves db (snd (poll_cycle penv maxEvents db)) \<and>
   list_all2 (\<lambda>r r1. r1 = r\<lparr>retry_count := retry_count r1, last_error := last_error r1\<rparr>)
     (outbox_events db) (outbox_events (snd (IncrementRetryCount ok db eventID msg))) \<and>
   map_sum id (map EvID)
       (GetUnpublishedEvents qok locked (snd (IncrementRetryCount ok db eventID msg)) limit) =
     map_sum id (map EvID) (GetUnpublishedEvents qok locked db limit)"
proof -
  let ?f = "\<lambda>r. if row_id r = eventID
                 then r\<lparr>retry_count := retry_count r + 1, last_error := Some msg\<rparr> else r"
  have only: "list_all2 (\<lambda>r r1. r1 = r\<lparr>retry_count := retry_count r1, last_error := last_error r1\<rparr>)
     (outbox_events db) (outbox_events (snd (IncrementRetryCount ok db eventID msg)))"
    using IncrementRetryCount_cases [of ok db eventID msg]
    by (auto simp: list_all2_map2 list_all2_same)
  have elig: "map_sum id (map EvID)
       (GetUnpublishedEvents qok locked (snd (IncrementRetryCount ok db eventID msg)) limit) =
     map_sum id (map EvID) (GetUnpublishedEvents qok locked db limit)"
    using IncrementRetryCount_cases [of ok db eventID msg]
      GetUnpublishedEvents_map [of ?f qok locked db limit]
    by auto
  show ?thesis
    using only elig
    by (simp add: SaveWithEvent_evolves MarkAsPublished_evolves IncrementRetryCount_evolves
        CheckIn_evolves CheckOut_evolves poll_cycle_evolves)
qed

theorem C8_outbox_invariants_witness:
  "published (outbox_events ex_db ! 3) \<and>
   outbox_evolves ex_db (snd (MarkAsPublished True (400 * Second) ex_db ''o3'')) \<and>
   outbox_evolves ex_db (snd (IncrementRetryCount True ex_db ''o2'' ''broker down'')) \<and>
   outbox_evolves ex_db (snd (poll_cycle ex_poll_env 5 ex_db)) \<and>
   map_sum id (map EvID)
       (GetUnpublishedEvents True {} (snd (IncrementRetryCount True ex_db ''o2'' ''broker down'')) 5) =
     Inr [''o3'', ''o2'']"
proof -
  have p: "published (outbox_events ex_db ! 3)"
    by (simp add: ex_db_def ex_row_def)
  have g: "map_sum id (map EvID) (GetUnpublishedEvents True {} ex_db 5) = Inr [''o3'', ''o2'']"
    by code_simp
  from C8_outbox_invariants [of ex_db _ _ _ True "400 * Second" "''o3''" _ _ _ _ ex_poll_env 5]
    C8_outbox_invariants [of ex_db _ _ _ True _ "''o2''" "''broker down''" _ _ _ _ _ True "{}" 5]
    p g
  show ?thesis by simp
qed


section \<open>The relay and check-in events\<close>

lemma EventType_names_differ: "EventTypeEmployeeCheckedIn \<noteq> EventTypeEmployeeCheckedOut"
  by (simp add: EventTypeEmployeeCheckedIn_def EventTypeEmployeeCheckedOut_def)

lemma GetUnpublishedEvents_from_rows:
  assumes "GetUnpublishedEvents ok locked db limit = Inr events" and "e \<in> set events"
  shows "\<exists>r \<in> set (outbox_events db).
           e = scan_row r \<and> event_type r = EventTypeEmployeeCheckedOut \<and> \<not> published r"
proof -
  let ?eligible = "filter (\<lambda>r. \<not> published r \<and> event_type r = EventTypeEmployeeCheckedOut \<and>
                                row_id r \<notin> locked) (outbox_events db)"
  from assms have "e \<in> set (map scan_row (take (nat limit) (sort_key created_at ?eligible)))"
    by (simp add: GetUnpublishedEvents_def split: if_splits del: set_map)
  then obtain r where r: "r \<in> set (take (nat limit) (sort_key created_at ?eligible))"
    "e = scan_row r" by auto
  from r(1) have "r \<in> set (sort_key created_at ?eligible)" by (rule in_set_takeD)
  then have "r \<in> set ?eligible" by simp
  with r(2) show ?thesis by auto
qed

lemma pk_other_id:
  assumes "outbox_pk db" and "r \<in> set (outbox_events db)" and "r1 \<in> set (outbox_events db)"
    and "r \<noteq> r1"
  shows "row_id r \<noteq> row_id r1"
  using assms by (auto simp: outbox_pk_def distinct_map inj_on_def)

lemma MarkAsPublished_ids:
  "map row_id (outbox_events (snd (MarkAsPublished ok now db eventID))) =
     map row_id (outbox_events db)"
  by (simp add: MarkAsPublished_def o_def)

lemma IncrementRetryCount_ids:
  "map row_id (outbox_events (snd (IncrementRetryCount ok db eventID msg))) =
     map row_id (outbox_events db)"
  using IncrementRetryCount_cases [of ok db eventID msg] by (auto simp: o_def)

lemma MarkAsPublished_other:
  "r \<in> set (outbox_events db) \<Longrightarrow> row_id r \<noteq> eventID \<Longrightarrow>
     r \<in> set (outbox_events (snd (MarkAsPublished ok now db eventID)))"
  by (auto simp: MarkAsPublished_def image_iff intro!: bexI [of _ r])

lemma IncrementRetryCount_other:
  "r \<in> set (outbox_events db) \<Longrightarrow> row_id r \<noteq> eventID \<Longrightarrow>
     r \<in> set (outbox_events (snd (IncrementRetryCount ok db eventID msg)))"
  using IncrementRetryCount_cases [of ok db eventID msg]
  by (auto simp: image_iff intro!: bexI [of _ r])

lemma publish_events_other:
  assumes "r \<in> set (outbox_events db)" and "\<forall>e \<in> set events. EvID e \<noteq> row_id r"
  shows "r \<in> set (outbox_events (snd (publish_events env events sent db))) \<and>
         map row_id (outbox_events (snd (publish_events env events sent db))) =
           map row_id (outbox_events db) \<and>
         fst (publish_events env events sent db) = sent @ events"
  using assms
proof (induction events arbitrary: sent db)
  case Nil
  then show ?case by simp
next
  case (Cons event events)
  have ne: "row_id r \<noteq> EvID event" and rest: "\<forall>e \<in> set events. EvID e \<noteq> row_id r"
    using Cons.prems(2) by auto
  show ?case
  proof (cases "publish_result env (EvID event)")
    case None
    let ?db = "snd (MarkAsPublished (update_ok env (EvID event)) (mark_now env (EvID event))
                    db (EvID event))"
    have "r \<in> set (outbox_events ?db)"
      using Cons.prems(1) ne by (rule MarkAsPublished_other)
    from Cons.IH [OF this rest, of "sent @ [event]"] None show ?thesis
      by (simp add: MarkAsPublished_ids)
  next
    case (Some msg)
    let ?db = "snd (IncrementRetryCount (update_ok env (EvID event)) db (EvID event) msg)"
    have "r \<in> set (outbox_events ?db)"
      using Cons.prems(1) ne by (rule IncrementRetryCount_other)
    from Cons.IH [OF this rest, of "sent @ [event]"] Some show ?thesis
      by (simp add: IncrementRetryCount_ids)
  qed
qed

lemma checkin_row_not_returned:
  assumes "outbox_pk db" and "r \<in> set (outbox_events db)"
    and "event_type r = EventTypeEmployeeCheckedIn"
    and "GetUnpublishedEvents ok locked db limit = Inr events" and "e \<in> set events"
  shows "EvID e \<noteq> row_id r \<and> EvType e = EventTypeEmployeeCheckedOut"
proof -
  from GetUnpublishedEvents_from_rows [OF assms(4,5)]
  obtain r1 where r1: "r1 \<in> set (outbox_events db)" "e = scan_row r1"
    "event_type r1 = EventTypeEmployeeCheckedOut" by blast
  have "r \<noteq> r1" using assms(3) r1(3) EventType_names_differ by auto
  with pk_other_id [OF assms(1,2) r1(1)] have "row_id r \<noteq> row_id r1" by simp
  then show ?thesis using r1(2,3) by (simp add: scan_row_def)
qed

lemma poll_cycle_checkin_row:
  assumes "outbox_pk db" and "r \<in> set (outbox_events db)"
    and "event_type r = EventTypeEmployeeCheckedIn"
  shows "r \<in> set (outbox_events (snd (poll_cycle env maxEvents db))) \<and>
         outbox_pk (snd (poll_cycle env maxEvents db)) \<and>
         (\<forall>e \<in> set (fst (poll_cycle env maxEvents db)).
            EvID e \<noteq> row_id r \<and> EvType e = EventTypeEmployeeCheckedOut)"
proof (cases "GetUnpublishedEvents (query_ok env) (locked_rows env) db maxEvents")
  case (Inl e)
  then show ?thesis using assms by (simp add: poll_cycle_def)
next
  case (Inr events)
  have ev: "\<forall>e \<in> set events. EvID e \<noteq> row_id r \<and> EvType e = EventTypeEmployeeCheckedOut"
    using checkin_row_not_returned [OF assms Inr] by blast
  then have "\<forall>e \<in> set events. EvID e \<noteq> row_id r" by blast
  from publish_events_other [OF assms(2) this, of env "[]"] ev assms Inr show ?thesis
    by (simp add: poll_cycle_def outbox_pk_def)
qed

lemma poll_cycles_checkin_row:
  assumes "outbox_pk db" and "r \<in> set (outbox_events db)"
    and "event_type r = EventTypeEmployeeCheckedIn"
    and "\<forall>e \<in> set sent. EvID e \<noteq> row_id r \<and> EvType e = EventTypeEmployeeCheckedOut"
  shows "r \<in> set (outbox_events (snd (poll_cycles ticks sent db))) \<and>
         outbox_pk (snd (poll_cycles ticks sent db)) \<and>
         (\<forall>e \<in> set (fst (poll_cycles ticks sent db)).
            EvID e \<noteq> row_id r \<and> EvType e = EventTypeEmployeeCheckedOut)"
  using assms
proof (induction ticks arbitrary: sent db)
  case Nil
  then show ?case by simp
next
  case (Cons tick ticks)
  obtain env maxEvents where tick: "tick = (env, maxEvents)" by (cases tick)
  obtain sent1 db1 where pc: "poll_cycle env maxEvents db = (sent1, db1)"
    by (cases "poll_cycle env maxEvents db")
  from poll_cycle_checkin_row [OF Cons.prems(1-3), of env maxEvents] pc
  have s: "r \<in> set (outbox_events db1)" "outbox_pk db1"
    "\<forall>e \<in> set sent1. EvID e \<noteq> row_id r \<and> EvType e = EventTypeEmployeeCheckedOut"
    by simp_all
  have "\<forall>e \<in> set (sent @ sent1). EvID e \<noteq> row_id r \<and> EvType e = EventTypeEmployeeCheckedOut"
    using Cons.prems(4) s(3) by auto
  from Cons.IH [OF s(2) s(1) Cons.prems(3) this] show ?case
    by (simp add: tick pc)
qed

lemma CheckIn_success_row:
  assumes "CheckIn env db0 employeeID = (Inr record, db)"
  shows "\<exists>r. outbox_events db = outbox_events db0 @ [r] \<and>
             event_type r = EventTypeEmployeeCheckedIn \<and> \<not> published r \<and>
             aggregate_id r = ID record \<and> row_id r \<notin> set (map row_id (outbox_events db0))"
proof -
  obtain rec where rec: "NewTimeRecord (entity_uuid env) (entity_now env) employeeID = Inr rec"
    using assms
    by (cases "NewTimeRecord (entity_uuid env) (entity_now env) employeeID")
       (auto simp: CheckIn_def split: sum.splits option.splits)
  let ?event = "EmployeeCheckedInEvent
                  \<lparr> EventID = event_uuid env, HeaderEventType = EventTypeEmployeeCheckedIn,
                    Version = 1, Timestamp = event_now env \<rparr>
                  (EmployeeID rec) (CheckInAt rec) (ID rec)"
  have sv: "SaveWithEvent (save env) rec ?event db0 = (None, db)" and eq: "record = rec"
    using assms rec
    by (auto simp: CheckIn_def Let_def split: sum.splits option.splits prod.splits)
  have "outbox_uuid (save env) \<notin> set (map row_id (outbox_events db0))"
    using sv by (simp add: SaveWithEvent_cases split: if_splits)
  moreover have "outbox_events db = outbox_events db0 @
          [\<lparr> row_id = outbox_uuid (save env), event_type = EventType ?event,
             aggregate_id = ID rec, payload = ?event, created_at = outbox_now (save env),
             published = False, published_at = None, retry_count = 0, last_error = None \<rparr>]"
    using SaveWithEvent_success [of "save env" rec ?event db0] sv by simp
  ultimately show ?thesis using eq by simp
qed

text \<open>
  Claim C6. After a successful \<^verbatim>\<open>CheckIn\<close> on a table whose ids are distinct (the
  primary key), the outbox table has one more row, of type \<^verbatim>\<open>EmployeeCheckedIn\<close>, for
  the new record, unpublished. And every \<^verbatim>\<open>EmployeeCheckedIn\<close> row of the table stays
  as it is, hence unpublished if it was, through every sequence of poll cycles, whatever
  their fetch limits and whatever the publisher and the database do: no poll hands the row
  to the publisher (every event handed over is of type \<^verbatim>\<open>EmployeeCheckedOut\<close>), and no
  later \<^verbatim>\<open>GetUnpublishedEvents\<close> returns it.
\<close>

theorem C6_checkin_rows_never_published:
  assumes pk: "outbox_pk db0"
    and ci: "CheckIn env db0 employeeID = (Inr record, db)"
  shows "(\<exists>r. outbox_events db = outbox_events db0 @ [r] \<and>
              event_type r = EventTypeEmployeeCheckedIn \<and> \<not> published r \<and>
              aggregate_id r = ID record) \<and>
         (\<forall>r \<in> set (outbox_events db). event_type r = EventTypeEmployeeCheckedIn \<longrightarrow>
            (\<forall>ticks.
               r \<in> set (outbox_events (snd (poll_cycles ticks [] db))) \<and>
               (\<forall>e \<in> set (fst (poll_cycles ticks [] db)).
                  EvID e \<noteq> row_id r \<and> EvType e = EventTypeEmployeeCheckedOut) \<and>
               (\<forall>ok locked limit events.
                  GetUnpublishedEvents ok locked (snd (poll_cycles ticks [] db)) limit = Inr events \<longrightarrow>
                  (\<forall>e \<in> set events. EvID e \<noteq> row_id r \<and> EvType e = EventTypeEmployeeCheckedOut))))"
proof -
  from CheckIn_success_row [OF ci] obtain r0 where r0:
    "outbox_events db = outbox_events db0 @ [r0]" "event_type r0 = EventTypeEmployeeCheckedIn"
    "\<not> published r0" "aggregate_id r0 = ID record"
    "row_id r0 \<notin> set (map row_id (outbox_events db0))" by blast
  have pk1: "outbox_pk db" using pk r0(1,5) by (simp add: outbox_pk_def)
  have inv: "r \<in> set (outbox_events (snd (poll_cycles ticks [] db))) \<and>
             outbox_pk (snd (poll_cycles ticks [] db)) \<and>
             (\<forall>e \<in> set (fst (poll_cycles ticks [] db)).
                EvID e \<noteq> row_id r \<and> EvType e = EventTypeEmployeeCheckedOut)"
    if "r \<in> set (outbox_events db)" "event_type r = EventTypeEmployeeCheckedIn" for r ticks
    using poll_cycles_checkin_row [OF pk1 that, of "[]" ticks] by simp
  have later: "\<forall>e \<in> set events. EvID e \<noteq> row_id r \<and> EvType e = EventTypeEmployeeCheckedOut"
    if "r \<in> set (outbox_events db)" "event_type r = EventTypeEmployeeCheckedIn"
      "GetUnpublishedEvents ok locked (snd (poll_cycles ticks [] db)) limit = Inr events"
    for r ticks ok locked limit events
    using checkin_row_not_returned [OF _ _ that(2) that(3)] inv [OF that(1,2), of ticks] by blast
  show ?thesis
    using r0(1-4) inv later by blast
qed

theorem C6_checkin_rows_never_published_witness:
  "outbox_pk ex_db \<and>
   fst (CheckIn (ex_service_env (500 * Second)) ex_db ''E7'') =
     Inr \<lparr> ID = ''r9'', EmployeeID = ''E7'', CheckInAt = 500 * Second, CheckOutAt = None,
           Status = StatusCheckedIn, HoursWorked = 0 \<rparr> \<and>
   event_type (last (outbox_events (snd (CheckIn (ex_service_env (500 * Second)) ex_db ''E7''))))
     = EventTypeEmployeeCheckedIn \<and>
   \<not> published (last (outbox_events (snd (CheckIn (ex_service_env (500 * Second)) ex_db ''E7'')))) \<and>
   last (outbox_events (snd (CheckIn (ex_service_env (500 * Second)) ex_db ''E7''))) \<in>
     set (outbox_events (snd (poll_cycles [(ex_poll_env, 1), (ex_poll_env, 5)] []
            (snd (CheckIn (ex_service_env (500 * Second)) ex_db ''E7''))))) \<and>
   map EvID (fst (poll_cycles [(ex_poll_env, 1), (ex_poll_env, 5)] []
            (snd (CheckIn (ex_service_env (500 * Second)) ex_db ''E7'')))) = [''o3'', ''o2'']"
proof -
  let ?env = "ex_service_env (500 * Second)"
  let ?rec = "\<lparr> ID = ''r9'', EmployeeID = ''E7'', CheckInAt = 500 * Second, CheckOutAt = None,
           Status = StatusCheckedIn, HoursWorked = 0 \<rparr>"
  let ?db = "snd (CheckIn ?env ex_db ''E7'')"
  have pk: "outbox_pk ex_db" by code_simp
  have f: "fst (CheckIn ?env ex_db ''E7'') = Inr ?rec" by code_simp
  then have ci: "CheckIn ?env ex_db ''E7'' = (Inr ?rec, ?db)" by (metis prod.collapse)
  have r: "last (outbox_events ?db) \<in> set (outbox_events ?db)"
    "event_type (last (outbox_events ?db)) = EventTypeEmployeeCheckedIn"
    "\<not> published (last (outbox_events ?db))"
    by code_simp+
  have s: "map EvID (fst (poll_cycles [(ex_poll_env, 1), (ex_poll_env, 5)] [] ?db)) = [''o3'', ''o2'']"
    by code_simp
  from C6_checkin_rows_never_published [OF pk ci] r(1,2)
  have "last (outbox_events ?db) \<in>
     set (outbox_events (snd (poll_cycles [(ex_poll_env, 1), (ex_poll_env, 5)] [] ?db)))"
    by blast
  with pk f r(2,3) s show ?thesis by simp
qed


end
